theory Spec2Isabelle
  imports Complex_Main "HOL-Library.Word" "HOL-Library.Signed_Division"
begin

section \<open>Data model shared by the three clients\<close>

text \<open>
  The three clients (A1 two-copy, A2 scatter-gather, A3 zero-copy) share their
  structures, \<open>alloc_message\<close>, \<open>print_results\<close> and the aggregation in \<open>main\<close>
  verbatim; they differ in the send loop of \<open>client_thread\<close>. C \<open>int\<close> and
  \<open>long long\<close> values are modelled as \<open>int\<close> (no claim depends on their
  overflow), C \<open>char\<close> bytes as \<open>8 word\<close>.
\<close>

type_synonym byte = "8 word"

definition NUM_FIELDS :: nat where
  "NUM_FIELDS = 8"

text \<open>The \<open>errno\<close> values the clients distinguish; \<open>EOTHER\<close> is any other value.\<close>

datatype errno = EINTR | EPIPE | ECONNRESET | ENOBUFS | EOTHER nat

text \<open>
  A C \<open>double\<close> that results from a division: the quotient of two finite values, or a
  non-finite value (infinity or NaN) when the divisor is zero. Sums and differences of
  clock readings are finite and are modelled as \<open>real\<close>.
\<close>

datatype double = Dbl real | NotFinite

fun ddiv :: "double \<Rightarrow> double \<Rightarrow> double" where
  "ddiv (Dbl a) (Dbl b) = (if b = 0 then NotFinite else Dbl (a / b))"
| "ddiv _ _ = NotFinite"

fun dadd :: "double \<Rightarrow> double \<Rightarrow> double" where
  "dadd (Dbl a) (Dbl b) = Dbl (a + b)"
| "dadd _ _ = NotFinite"

record message_t =
  msg_fields :: "byte list list"
  field_size :: int

record thread_args_t =
  thread_id :: int
  msg_size :: int
  duration :: int
  bytes_transferred :: int
  elapsed_time :: real
  avg_latency_us :: double

text \<open>
  The ways the process ends through \<open>exit(EXIT_FAILURE)\<close> inside \<open>alloc_message\<close>,
  each after its diagnostic on stderr.
\<close>

datatype fatal = Malloc_message_t | Msg_size_too_small | Malloc_field

text \<open>
  \<open>alloc_message\<close>. The heap is modelled by the number of \<open>malloc\<close> calls that still
  succeed. C integer division truncates towards zero (\<open>sdiv\<close>). Field \<open>i\<close> is filled
  with the byte \<open>'A' + i\<close>.
\<close>

definition alloc_message :: "nat \<Rightarrow> int \<Rightarrow> fatal + message_t" where
  "alloc_message heap msg_sz =
     (if heap = 0 then Inl Malloc_message_t
      else
        let fs = msg_sz sdiv int NUM_FIELDS in
        if fs \<le> 0 then Inl Msg_size_too_small
        else if heap - 1 < NUM_FIELDS then Inl Malloc_field
        else Inr \<lparr>msg_fields = map (\<lambda>i. replicate (nat fs) (of_nat (65 + i))) [0..<NUM_FIELDS],
                  field_size = fs\<rparr>)"

section \<open>The kernel's send primitives\<close>

text \<open>
  What one call of \<open>send\<close> or \<open>sendmsg\<close> does is decided by the kernel: either it has
  room for some number of bytes, or it fails with an \<open>errno\<close>. A call never accepts
  more than it is offered.
\<close>

datatype sys_ret = Room nat | Err errno

fun kernel_send :: "sys_ret \<Rightarrow> nat \<Rightarrow> errno + nat" where
  "kernel_send (Room n) offered = Inr (min n offered)"
| "kernel_send (Err e) offered = Inl e"

section \<open>A1: \<open>send_all\<close> and the two-copy loop\<close>

text \<open>
  \<open>send_all\<close>: \<open>off\<close> is the pointer \<open>p\<close> as an offset into \<open>buf\<close>, \<open>remaining\<close> the
  count; \<open>wire\<close> collects the bytes the kernel accepted, in order. The list is the
  kernel's answer to each successive \<open>send\<close> call. A loop that is still running when
  the answers end has not returned: its result is \<open>None\<close>. Otherwise the result is
  \<open>Some (Inr len)\<close>, or \<open>Some (Inl e)\<close> for the return value \<open>-1\<close> with \<open>errno = e\<close>.
\<close>

fun send_all_loop ::
  "sys_ret list \<Rightarrow> byte list \<Rightarrow> nat \<Rightarrow> nat \<Rightarrow> nat \<Rightarrow> byte list \<Rightarrow> (errno + nat) option \<times> byte list"
where
  "send_all_loop [] buf len off remaining wire =
     (if remaining > 0 then (None, wire) else (Some (Inr len), wire))"
| "send_all_loop (r # rs) buf len off remaining wire =
     (if remaining > 0 then
        (case kernel_send r remaining of
           Inl e \<Rightarrow>
             if e = EINTR then send_all_loop rs buf len off remaining wire
             else (Some (Inl e), wire)
         | Inr sent \<Rightarrow>
             send_all_loop rs buf len (off + sent) (remaining - sent)
               (wire @ take sent (drop off buf)))
      else (Some (Inr len), wire))"

definition send_all :: "sys_ret list \<Rightarrow> byte list \<Rightarrow> nat \<Rightarrow> (errno + nat) option \<times> byte list" where
  "send_all answers buf len = send_all_loop answers buf len 0 len []"

text \<open>\<open>memcpy(dst + off, src, n)\<close> on byte lists.\<close>

definition memcpy :: "byte list \<Rightarrow> nat \<Rightarrow> byte list \<Rightarrow> nat \<Rightarrow> byte list" where
  "memcpy dst off src n = take off dst @ take n src @ drop (off + n) dst"

text \<open>The serialization loop of A1 (copy 1): the eight fields, one after the other.\<close>

definition serialize :: "message_t \<Rightarrow> byte list \<Rightarrow> byte list" where
  "serialize msg send_buf =
     fst (fold (\<lambda>i (buf, offset).
                  (memcpy buf (nat offset) (msg_fields msg ! i) (nat (field_size msg)),
                   offset + field_size msg))
               [0..<NUM_FIELDS] (send_buf, 0))"

text \<open>The variables of the send loop; \<open>errlog\<close> holds the \<open>perror\<close> calls.\<close>

record counters =
  total_bytes :: int
  msg_count :: int
  total_latency :: real
  errlog :: "string list"

definition counters0 :: counters where
  "counters0 = \<lparr>total_bytes = 0, msg_count = 0, total_latency = 0, errlog = []\<rparr>"

text \<open>
  The send loop of A1. Each list element is one pass whose time check
  \<open>get_time_sec() - start_time < duration\<close> succeeded: the kernel's answers to the
  \<open>send\<close> calls of that pass and the measured \<open>msg_end - msg_start\<close>. The wall clock
  passes the deadline after finitely many passes; the empty list is the failed time
  check. \<open>None\<close>: \<open>send_all\<close> did not return.
\<close>

fun a1_loop ::
  "int \<Rightarrow> message_t \<Rightarrow> (sys_ret list \<times> real) list \<Rightarrow> byte list \<times> counters
     \<Rightarrow> (byte list \<times> counters) option"
where
  "a1_loop msg_sz msg [] (send_buf, c) = Some (send_buf, c)"
| "a1_loop msg_sz msg ((answers, lat) # rest) (send_buf, c) =
     (let buf = serialize msg send_buf in
      case fst (send_all answers buf (nat msg_sz)) of
        None \<Rightarrow> None
      | Some (Inl e) \<Rightarrow>
          if e = EPIPE \<or> e = ECONNRESET then Some (buf, c)
          else Some (buf, c\<lparr>errlog := errlog c @ [''send'']\<rparr>)
      | Some (Inr sent) \<Rightarrow>
          a1_loop msg_sz msg rest
            (buf, c\<lparr>total_bytes := total_bytes c + int sent,
                    msg_count := msg_count c + 1,
                    total_latency := total_latency c + lat\<rparr>))"

section \<open>The worker as a whole\<close>

text \<open>
  What the worker cannot decide itself: whether \<open>connect_to_server\<close> yields a socket,
  what the \<open>send\<close> of the 8-byte \<open>config_t\<close> returns, whether
  \<open>setsockopt(SO_ZEROCOPY)\<close> succeeds (A3 only; a failure prints a notice and the
  worker goes on), how many \<open>malloc\<close> calls succeed, the content of fresh heap memory,
  and the clock reading after the loop.
\<close>

record env =
  connect_ok :: bool
  config_ret :: int
  zerocopy_ok :: bool
  heap :: nat
  uninit :: "nat \<Rightarrow> byte"
  elapsed :: real

text \<open>What a worker does that is visible outside it, in order.\<close>

datatype action =
    Connect_attempt
  | Setsockopt_zerocopy
  | Fallback_notice
  | Send_config
  | Diagnostic fatal
  | Payload_loop
  | Final_drain
  | Socket_closed

text \<open>
  How a worker ends: it returns with its \<open>thread_args_t\<close>, the process exits, or it
  never returns.
\<close>

datatype outcome = Returned thread_args_t | Process_exit | Never_returns

text \<open>Step 6 of \<open>client_thread\<close>: the metrics, with the guarded division.\<close>

definition record_metrics :: "'a counters_scheme \<Rightarrow> real \<Rightarrow> thread_args_t \<Rightarrow> thread_args_t" where
  "record_metrics c el targs =
     targs\<lparr>bytes_transferred := total_bytes c,
           elapsed_time := el,
           avg_latency_us :=
             (if msg_count c > 0 then ddiv (Dbl (total_latency c)) (Dbl (real_of_int (msg_count c)))
              else Dbl 0)\<rparr>"

definition a1_client_thread ::
  "env \<Rightarrow> (sys_ret list \<times> real) list \<Rightarrow> thread_args_t \<Rightarrow> action list \<times> outcome"
where
  "a1_client_thread ev passes targs =
     (if \<not> connect_ok ev then ([Connect_attempt], Returned targs)
      else if config_ret ev \<noteq> 8 then
        ([Connect_attempt, Send_config, Socket_closed], Returned targs)
      else
        case alloc_message (heap ev) (msg_size targs) of
          Inl f \<Rightarrow> ([Connect_attempt, Send_config, Diagnostic f], Process_exit)
        | Inr msg \<Rightarrow>
            if heap ev < 10 then
              ([Connect_attempt, Send_config, Socket_closed], Returned targs)
            else
              case a1_loop (msg_size targs) msg passes
                     (map (uninit ev) [0..<nat (msg_size targs)], counters0) of
                None \<Rightarrow> ([Connect_attempt, Send_config, Payload_loop], Never_returns)
              | Some (buf, c) \<Rightarrow>
                  ([Connect_attempt, Send_config, Payload_loop, Socket_closed],
                   Returned (record_metrics c (elapsed ev) targs)))"

section \<open>A2: the scatter-gather loop\<close>

text \<open>The \<open>iovec\<close> array: entry \<open>i\<close> is (base, length) of field \<open>i\<close>.\<close>

definition iov_of :: "message_t \<Rightarrow> (byte list \<times> nat) list" where
  "iov_of msg = map (\<lambda>i. (msg_fields msg ! i, nat (field_size msg))) [0..<NUM_FIELDS]"

text \<open>The bytes a \<open>sendmsg\<close> over an \<open>iovec\<close> array offers to the kernel.\<close>

definition gather :: "(byte list \<times> nat) list \<Rightarrow> byte list" where
  "gather iov = concat (map (\<lambda>(base, n). take n base) iov)"

fun a2_loop :: "message_t \<Rightarrow> (sys_ret \<times> real) list \<Rightarrow> counters \<Rightarrow> counters" where
  "a2_loop msg [] c = c"
| "a2_loop msg ((r, lat) # rest) c =
     (case kernel_send r (length (gather (iov_of msg))) of
        Inl e \<Rightarrow>
          if e = EPIPE \<or> e = ECONNRESET then c
          else if e = EINTR then a2_loop msg rest c
          else c\<lparr>errlog := errlog c @ [''sendmsg'']\<rparr>
      | Inr sent \<Rightarrow>
          a2_loop msg rest
            (c\<lparr>total_bytes := total_bytes c + int sent,
               msg_count := msg_count c + 1,
               total_latency := total_latency c + lat\<rparr>))"

definition a2_client_thread ::
  "env \<Rightarrow> (sys_ret \<times> real) list \<Rightarrow> thread_args_t \<Rightarrow> action list \<times> outcome"
where
  "a2_client_thread ev passes targs =
     (if \<not> connect_ok ev then ([Connect_attempt], Returned targs)
      else if config_ret ev \<noteq> 8 then
        ([Connect_attempt, Send_config, Socket_closed], Returned targs)
      else
        case alloc_message (heap ev) (msg_size targs) of
          Inl f \<Rightarrow> ([Connect_attempt, Send_config, Diagnostic f], Process_exit)
        | Inr msg \<Rightarrow>
            ([Connect_attempt, Send_config, Payload_loop, Socket_closed],
             Returned (record_metrics (a2_loop msg passes counters0) (elapsed ev) targs)))"

section \<open>A3: the zero-copy loop and the completion drain\<close>

text \<open>
  One control message of the socket's error queue, with the three values
  \<open>drain_completions\<close> looks at.
\<close>

record cmsghdr =
  cmsg_level :: int
  cmsg_type :: int
  ee_origin :: nat

text \<open>
  \<open>drain_completions\<close>. The error queue is the list of pending messages, each a list
  of control messages; \<open>recvmsg\<close> with \<open>MSG_ERRQUEUE | MSG_DONTWAIT\<close> takes the first
  one and fails on the empty queue, which ends the loop. The function returns \<open>void\<close>
  and writes to locals only: walking the control messages (\<open>scan_cmsgs\<close>, whose branch for
  a zero-copy completion is empty) changes nothing, so all that remains of a drain is
  the queue it leaves behind. \<open>SOL_IP\<close> and \<open>IP_RECVERR\<close> have their Linux values;
  \<open>SO_EE_ORIGIN_ZEROCOPY\<close> is the source's fallback definition.
\<close>

definition SOL_IP :: int where
  "SOL_IP = 0"

definition IP_RECVERR :: int where
  "IP_RECVERR = 11"

definition SO_EE_ORIGIN_ZEROCOPY :: nat where
  "SO_EE_ORIGIN_ZEROCOPY = 5"

fun scan_cmsgs :: "cmsghdr list \<Rightarrow> unit" where
  "scan_cmsgs [] = ()"
| "scan_cmsgs (cm # cms) =
     (if cmsg_level cm = SOL_IP \<and> cmsg_type cm = IP_RECVERR then
        (if ee_origin cm = SO_EE_ORIGIN_ZEROCOPY then scan_cmsgs cms else scan_cmsgs cms)
      else scan_cmsgs cms)"

fun drain_completions :: "cmsghdr list list \<Rightarrow> cmsghdr list list" where
  "drain_completions [] = []"
| "drain_completions (m # q) = (case scan_cmsgs m of () \<Rightarrow> drain_completions q)"

record a3_state = counters +
  drain_counter :: int
  errqueue :: "cmsghdr list list"

definition a3_state0 :: a3_state where
  "a3_state0 = \<lparr>total_bytes = 0, msg_count = 0, total_latency = 0, errlog = [],
                drain_counter = 0, errqueue = []\<rparr>"

text \<open>
  The send loop of A3. A pass carries the completion messages the kernel has queued
  since the previous pass, the kernel's answer to \<open>sendmsg\<close> and the measured latency.
\<close>

fun a3_loop ::
  "message_t \<Rightarrow> (cmsghdr list list \<times> sys_ret \<times> real) list \<Rightarrow> a3_state \<Rightarrow> a3_state"
where
  "a3_loop msg [] s = s"
| "a3_loop msg ((arrived, r, lat) # rest) s =
     (let s1 = s\<lparr>errqueue := errqueue s @ arrived\<rparr> in
      case kernel_send r (length (gather (iov_of msg))) of
        Inl e \<Rightarrow>
          if e = ENOBUFS then
            a3_loop msg rest (s1\<lparr>errqueue := drain_completions (errqueue s1)\<rparr>)
          else if e = EPIPE \<or> e = ECONNRESET then s1
          else if e = EINTR then a3_loop msg rest s1
          else s1\<lparr>errlog := errlog s1 @ [''sendmsg MSG_ZEROCOPY'']\<rparr>
      | Inr sent \<Rightarrow>
          (let s2 = s1\<lparr>total_bytes := total_bytes s1 + int sent,
                       msg_count := msg_count s1 + 1,
                       total_latency := total_latency s1 + lat\<rparr>
           in if drain_counter s2 + 1 \<ge> 64 then
                a3_loop msg rest
                  (s2\<lparr>drain_counter := 0, errqueue := drain_completions (errqueue s2)\<rparr>)
              else a3_loop msg rest (s2\<lparr>drain_counter := drain_counter s2 + 1\<rparr>)))"

text \<open>
  The loop followed by the final drain; \<open>last_arrived\<close> are the completion messages
  queued between the last pass and the final drain.
\<close>

definition a3_run ::
  "message_t \<Rightarrow> (cmsghdr list list \<times> sys_ret \<times> real) list \<Rightarrow> cmsghdr list list \<Rightarrow> a3_state"
where
  "a3_run msg passes last_arrived =
     (let s = a3_loop msg passes a3_state0;
          s1 = s\<lparr>errqueue := errqueue s @ last_arrived\<rparr>
      in s1\<lparr>errqueue := drain_completions (errqueue s1)\<rparr>)"

definition a3_client_thread ::
  "env \<Rightarrow> (cmsghdr list list \<times> sys_ret \<times> real) list \<Rightarrow> cmsghdr list list
     \<Rightarrow> thread_args_t \<Rightarrow> action list \<times> outcome"
where
  "a3_client_thread ev passes last_arrived targs =
     (if \<not> connect_ok ev then ([Connect_attempt], Returned targs)
      else
        let setup = [Connect_attempt, Setsockopt_zerocopy]
                      @ (if zerocopy_ok ev then [] else [Fallback_notice])
        in
        if config_ret ev \<noteq> 8 then (setup @ [Send_config, Socket_closed], Returned targs)
        else
          case alloc_message (heap ev) (msg_size targs) of
            Inl f \<Rightarrow> (setup @ [Send_config, Diagnostic f], Process_exit)
          | Inr msg \<Rightarrow>
              (setup @ [Send_config, Payload_loop, Final_drain, Socket_closed],
               Returned (record_metrics (a3_run msg passes last_arrived) (elapsed ev) targs)))"

section \<open>Aggregation in \<open>main\<close> and \<open>print_results\<close>\<close>

text \<open>
  The aggregation loop over the joined workers: the sum of the bytes, the largest
  elapsed time above the initial \<open>0.0\<close>, and the sum of the per-worker latencies.
\<close>

definition aggregate :: "thread_args_t list \<Rightarrow> int \<times> real \<times> double" where
  "aggregate targs =
     fold (\<lambda>t (all_bytes, max_elapsed, total_lat).
             (all_bytes + bytes_transferred t,
              (if elapsed_time t > max_elapsed then elapsed_time t else max_elapsed),
              dadd total_lat (avg_latency_us t)))
          targs (0, 0, Dbl 0)"

text \<open>\<open>double avg_latency = total_latency / threads\<close>.\<close>

definition avg_latency :: "thread_args_t list \<Rightarrow> double" where
  "avg_latency targs =
     ddiv (snd (snd (aggregate targs))) (Dbl (real (length targs)))"

text \<open>The throughput that \<open>print_results\<close> computes and prints.\<close>

definition throughput_gbps :: "int \<Rightarrow> real \<Rightarrow> double" where
  "throughput_gbps all_bytes el = ddiv (Dbl (real_of_int all_bytes * 8)) (Dbl (el * 1000000000))"

text \<open>The fields of the \<open>RESULT\<close> line that \<open>main\<close> prints for the run.\<close>

definition report :: "thread_args_t list \<Rightarrow> int \<times> real \<times> double \<times> double" where
  "report targs =
     (let (all_bytes, max_elapsed, total_lat) = aggregate targs
      in (all_bytes, max_elapsed, throughput_gbps all_bytes max_elapsed, avg_latency targs))"

section \<open>Auxiliary notions for the statements\<close>

text \<open>The total room the kernel offers over a list of answers.\<close>

fun room_total :: "sys_ret list \<Rightarrow> nat" where
  "room_total [] = 0"
| "room_total (Room n # rs) = n + room_total rs"
| "room_total (Err e # rs) = room_total rs"

text \<open>
  Concrete inputs for the examples: an environment in which every call succeeds and
  fresh memory reads as zero, the \<open>thread_args_t\<close> that \<open>main\<close> prepares for a
  message size, and the message that \<open>alloc_message\<close> builds for \<open>msg_size = 8\<close>.
\<close>

definition zero_fill :: "nat \<Rightarrow> byte" where
  "zero_fill i = 0"

definition env_ok :: env where
  "env_ok = \<lparr>connect_ok = True, config_ret = 8, zerocopy_ok = True, heap = 10,
             uninit = zero_fill, elapsed = 2\<rparr>"

definition targs_of :: "int \<Rightarrow> thread_args_t" where
  "targs_of m = \<lparr>thread_id = 0, msg_size = m, duration = 2, bytes_transferred = 0,
                 elapsed_time = 0, avg_latency_us = Dbl 0\<rparr>"

abbreviation msg8 :: message_t where
  "msg8 \<equiv> \<lparr>msg_fields = [[65], [66], [67], [68], [69], [70], [71], [72]], field_size = 1\<rparr>"

text \<open>A \<open>sendmsg\<close> answer that does not cut a message of \<open>k\<close> bytes short.\<close>

fun full_send :: "nat \<Rightarrow> sys_ret \<Rightarrow> bool" where
  "full_send k (Room n) = (k \<le> n)"
| "full_send k (Err e) = True"

text \<open>
  The counters of the zero-copy loop, without the socket's error queue.
\<close>

definition a3_counts :: "a3_state \<Rightarrow> int \<times> int \<times> real \<times> int \<times> string list" where
  "a3_counts s = (total_bytes s, msg_count s, total_latency s, drain_counter s, errlog s)"


text \<open>A worker's result with the given bytes, elapsed seconds and average latency.\<close>

definition worker_result :: "int \<Rightarrow> real \<Rightarrow> real \<Rightarrow> thread_args_t" where
  "worker_result b e l = \<lparr>thread_id = 0, msg_size = 80000, duration = 2,
     bytes_transferred = b, elapsed_time = e, avg_latency_us = Dbl l\<rparr>"

text \<open>
  An answer after which \<open>send_all\<close> goes on: some room, or an interrupted call.
\<close>

fun transient :: "sys_ret \<Rightarrow> bool" where
  "transient (Room n) = True"
| "transient (Err e) = (e = EINTR)"

text \<open>
  A pass of the two-copy loop whose answers let \<open>send_all\<close> finish a message of
  \<open>len\<close> bytes: room for all of it before any error other than \<open>EINTR\<close>.
\<close>

definition whole_pass :: "nat \<Rightarrow> sys_ret list \<times> real \<Rightarrow> bool" where
  "whole_pass len p = (list_all transient (fst p) \<and> len \<le> room_total (fst p))"

text \<open>
  The sum of the values \<open>sendmsg\<close> returns over the passes of the scatter-gather loop,
  for messages of \<open>k\<close> bytes, up to the pass that ends the loop.
\<close>

fun a2_accepted :: "nat \<Rightarrow> (sys_ret \<times> real) list \<Rightarrow> nat" where
  "a2_accepted k [] = 0"
| "a2_accepted k ((Room n, lat) # rest) = min n k + a2_accepted k rest"
| "a2_accepted k ((Err e, lat) # rest) = (if e = EINTR then a2_accepted k rest else 0)"


section \<open>\<open>send_all\<close>: partial sends and interrupted calls\<close>

text \<open>
  The loop invariant of \<open>send_all\<close>, for any offset, count and bytes already accepted:
  a full return has put exactly the \<open>remaining\<close> bytes from \<open>off\<close> on the wire, an
  error return a proper prefix of them, and the loop is still running at the end of the
  answers only if they offered less room than \<open>remaining\<close>.
\<close>

lemma send_all_loop_inv:
  "(case send_all_loop answers buf len off remaining wire of
      (Some (Inr n), w) \<Rightarrow> n = len \<and> w = wire @ take remaining (drop off buf)
    | (Some (Inl e), w) \<Rightarrow> e \<noteq> EINTR \<and> (\<exists>k<remaining. w = wire @ take k (drop off buf))
    | (None, w) \<Rightarrow> room_total answers < remaining)"
proof (induction answers arbitrary: off remaining wire)
  case Nil
  then show ?case by simp
next
  case (Cons r rs)
  show ?case
  proof (cases "remaining > 0")
    case False
    then show ?thesis by simp
  next
    case pos: True
    show ?thesis
    proof (cases r)
      case (Err e)
      show ?thesis
      proof (cases "e = EINTR")
        case True
        with Err pos Cons.IH [where off = off and remaining = remaining and wire = wire] show ?thesis
          by (auto split: prod.splits option.splits sum.splits)
      next
        case False
        with Err pos show ?thesis by auto
      qed
    next
      case (Room n)
      define sent where "sent = min n remaining"
      define wire' where "wire' = wire @ take sent (drop off buf)"
      have sent_le: "sent \<le> remaining" and sent_le_n: "sent \<le> n"
        by (simp_all add: sent_def)
      have split: "take sent (drop off buf) @ take k (drop (off + sent) buf)
                   = take (sent + k) (drop off buf)" for k
        unfolding take_add by (simp add: add.commute)
      have step: "send_all_loop (r # rs) buf len off remaining wire
                  = send_all_loop rs buf len (off + sent) (remaining - sent) wire'"
        using Room pos by (simp add: sent_def wire'_def)
      note ih = Cons.IH [where off = "off + sent" and remaining = "remaining - sent"
                           and wire = wire']
      obtain res w where run: "send_all_loop rs buf len (off + sent) (remaining - sent) wire'
                               = (res, w)"
        by (cases "send_all_loop rs buf len (off + sent) (remaining - sent) wire'")
      show ?thesis
      proof (cases res)
        case None
        with ih run have "room_total rs < remaining - sent" by simp
        moreover have "room_total (r # rs) = n + room_total rs" using Room by simp
        moreover have "n = sent \<or> sent = remaining" by (auto simp: sent_def min_def)
        ultimately have "room_total (r # rs) < remaining" by auto
        with step run None show ?thesis by simp
      next
        case (Some v)
        show ?thesis
        proof (cases v)
          case (Inr m)
          with ih run Some have "m = len"
            and "w = wire' @ take (remaining - sent) (drop (off + sent) buf)"
            by simp_all
          then have "m = len \<and> w = wire @ take remaining (drop off buf)"
            using split [of "remaining - sent"] sent_le by (simp add: wire'_def)
          with step run Some Inr show ?thesis by simp
        next
          case (Inl e)
          with ih run Some obtain k where k: "e \<noteq> EINTR" "k < remaining - sent"
            "w = wire' @ take k (drop (off + sent) buf)"
            by auto
          then have "sent + k < remaining \<and> w = wire @ take (sent + k) (drop off buf)"
            using split [of k] by (simp add: wire'_def)
          then have "\<exists>j<remaining. w = wire @ take j (drop off buf)" by blast
          with k(1) step run Some Inl show ?thesis by simp
        qed
      qed
    qed
  qed
qed

lemma send_all_eintr: "send_all (Err EINTR # answers) buf len = send_all answers buf len"
  by (cases answers) (simp_all add: send_all_def)

lemma send_all_cases:
  "(case send_all answers buf len of
      (Some (Inr n), w) \<Rightarrow> n = len \<and> w = take len buf
    | (Some (Inl e), w) \<Rightarrow> e \<noteq> EINTR \<and> (\<exists>k<len. w = take k buf)
    | (None, w) \<Rightarrow> room_total answers < len)"
  using send_all_loop_inv [where answers = answers and buf = buf and len = len and off = 0
      and remaining = len and wire = "[]"]
  by (auto simp: send_all_def split: prod.splits option.splits sum.splits)

lemma send_all_returns_len:
  "fst (send_all answers buf len) = Some (Inr n) \<Longrightarrow> n = len"
  using send_all_cases [where answers = answers and buf = buf and len = len]
  by (cases "send_all answers buf len") auto

lemma a1_loop_error_pass:
  assumes "fst (send_all answers (serialize msg send_buf) (nat msg_sz)) = Some (Inl e)"
  shows "\<exists>c'. a1_loop msg_sz msg ((answers, lat) # rest) (send_buf, c)
                 = Some (serialize msg send_buf, c')
             \<and> total_bytes c' = total_bytes c \<and> msg_count c' = msg_count c
             \<and> total_latency c' = total_latency c
             \<and> (e = EPIPE \<or> e = ECONNRESET \<longrightarrow> c' = c)"
  using assms by (simp add: Let_def)

lemma a1_loop_multiple:
  "a1_loop msg_sz msg passes (buf, c) = Some (buf', c') \<Longrightarrow> 0 \<le> msg_sz \<Longrightarrow>
     total_bytes c' - total_bytes c = (msg_count c' - msg_count c) * msg_sz
     \<and> msg_count c \<le> msg_count c'"
proof (induction passes arbitrary: buf c)
  case Nil
  then show ?case by simp
next
  case (Cons p rest)
  obtain answers lat where p: "p = (answers, lat)" by (cases p)
  let ?buf = "serialize msg buf"
  show ?case
  proof (cases "fst (send_all answers ?buf (nat msg_sz))")
    case None
    with Cons.prems p show ?thesis by (simp add: Let_def)
  next
    case (Some v)
    show ?thesis
    proof (cases v)
      case (Inl e)
      with Some Cons.prems p show ?thesis by (auto simp: Let_def split: if_splits)
    next
      case (Inr sent)
      with Some have sent: "int sent = msg_sz"
        using send_all_returns_len [where answers = answers and buf = ?buf and len = "nat msg_sz" and n = sent] Cons.prems(2) by simp
      let ?c = "c\<lparr>total_bytes := total_bytes c + int sent, msg_count := msg_count c + 1,
                    total_latency := total_latency c + lat\<rparr>"
      from Cons.prems(1) p Some Inr
      have "a1_loop msg_sz msg rest (?buf, ?c) = Some (buf', c')" by (simp add: Let_def)
      from Cons.IH [OF this Cons.prems(2)] sent show ?thesis
        by (simp add: algebra_simps)
    qed
  qed
qed

text \<open>
  What \<open>send_all\<close> does is fixed by the kernel's answers up to the first error other
  than \<open>EINTR\<close>: over answers that are all room or \<open>EINTR\<close>, each call continues at the
  offset the accepted bytes have reached.
\<close>

lemma send_all_loop_done:
  "send_all_loop answers buf len off 0 wire = (Some (Inr len), wire)"
  by (cases answers) simp_all

lemma send_all_loop_transient:
  "list_all transient pre \<Longrightarrow>
   send_all_loop (pre @ post) buf len off remaining wire
   = (if remaining \<le> room_total pre
      then (Some (Inr len), wire @ take remaining (drop off buf))
      else send_all_loop post buf len (off + room_total pre) (remaining - room_total pre)
             (wire @ take (room_total pre) (drop off buf)))"
proof (induction pre arbitrary: off remaining wire)
  case Nil
  then show ?case by (simp add: send_all_loop_done)
next
  case (Cons r rs)
  from Cons.prems have rs: "list_all transient rs" by simp
  note ih = Cons.IH [OF rs]
  show ?case
  proof (cases "remaining = 0")
    case True
    then show ?thesis by (simp add: send_all_loop_done)
  next
    case pos: False
    show ?thesis
    proof (cases r)
      case (Err e)
      with Cons.prems have "e = EINTR" by simp
      with Err pos have "send_all_loop ((r # rs) @ post) buf len off remaining wire
                         = send_all_loop (rs @ post) buf len off remaining wire"
        by simp
      with Err show ?thesis by (simp add: ih)
    next
      case (Room n)
      show ?thesis
      proof (cases "remaining \<le> n")
        case True
        with Room pos have "send_all_loop ((r # rs) @ post) buf len off remaining wire
              = send_all_loop (rs @ post) buf len (off + remaining) 0
                  (wire @ take remaining (drop off buf))"
          by (simp add: min_def)
        with Room True show ?thesis by (simp add: send_all_loop_done)
      next
        case False
        have split: "take n (drop off buf) @ take k (drop (off + n) buf)
                     = take (n + k) (drop off buf)" for k
          unfolding take_add by (simp add: add.commute)
        from Room pos False
        have step: "send_all_loop ((r # rs) @ post) buf len off remaining wire
              = send_all_loop (rs @ post) buf len (off + n) (remaining - n)
                  (wire @ take n (drop off buf))"
          by (simp add: min_def)
        show ?thesis
        proof (cases "remaining - n \<le> room_total rs")
          case True
          with False have "remaining \<le> room_total (r # rs)" using Room by simp
          moreover from False have "n + (remaining - n) = remaining" by simp
          ultimately show ?thesis
            using step True split [of "remaining - n"] by (simp add: ih)
        next
          case far: False
          then have "\<not> remaining \<le> room_total (r # rs)" using Room by simp
          moreover have "remaining - n - room_total rs = remaining - room_total (r # rs)"
            using Room by simp
          moreover have "off + n + room_total rs = off + room_total (r # rs)"
            using Room by simp
          ultimately show ?thesis
            using step far split [of "room_total rs"] Room by (simp add: ih add.assoc)
        qed
      qed
    qed
  qed
qed

lemma send_all_enough_room:
  assumes "list_all transient pre" and "len \<le> room_total pre"
  shows "send_all (pre @ post) buf len = (Some (Inr len), take len buf)"
  using send_all_loop_transient [OF assms(1), of post buf len 0 len "[]"] assms(2)
  by (simp add: send_all_def)

lemma send_all_error:
  assumes "list_all transient pre" and "room_total pre < len" and "e \<noteq> EINTR"
  shows "send_all (pre @ Err e # post) buf len = (Some (Inl e), take (room_total pre) buf)"
  using send_all_loop_transient [OF assms(1), of "Err e # post" buf len 0 len "[]"] assms(2,3)
  by (simp add: send_all_def)

lemma send_all_starved:
  assumes "list_all transient pre" and "room_total pre < len"
  shows "send_all pre buf len = (None, take (room_total pre) buf)"
  using send_all_loop_transient [OF assms(1), of "[]" buf len 0 len "[]"] assms(2)
  by (simp add: send_all_def)

text \<open>
  C6. \<open>send_all\<close> accounts for partial completion. Whatever the kernel answers, a
  return of \<open>len\<close> means that exactly the bytes at offsets \<open>0..len-1\<close> were accepted, in
  order; a return of \<open>-1\<close> carries an \<open>errno\<close> other than \<open>EINTR\<close> and only a proper
  prefix was accepted; the call is still running at the end of the answers only if they
  offered less room than \<open>len\<close>. An interrupted call (\<open>EINTR\<close>) is retried and changes
  nothing. When \<open>send_all\<close> returns \<open>-1\<close>, the caller's loop ends normally with its
  counters as they were, silently for \<open>EPIPE\<close> and \<open>ECONNRESET\<close>. And the result is
  determined: when the answers before any other error are partial acceptances and
  interrupted calls with room for \<open>len\<close> bytes in all, \<open>send_all\<close> returns \<open>len\<close>, each
  call having resumed at the unsent offset; when an error other than \<open>EINTR\<close> comes
  before that much room, it returns \<open>-1\<close> with that \<open>errno\<close>, the bytes accepted so far
  being the prefix of that length; and with neither, it is still running.
\<close>

theorem send_all_partial_completion:
  "(case send_all answers buf len of
      (Some (Inr n), w) \<Rightarrow> n = len \<and> w = take len buf
    | (Some (Inl e), w) \<Rightarrow> e \<noteq> EINTR \<and> (\<exists>k<len. w = take k buf)
    | (None, w) \<Rightarrow> room_total answers < len)
   \<and> send_all (Err EINTR # answers) buf len = send_all answers buf len
   \<and> (fst (send_all answers (serialize msg send_buf) (nat msg_sz)) = Some (Inl e') \<longrightarrow>
        (\<exists>c'. a1_loop msg_sz msg ((answers, lat) # rest) (send_buf, c)
                 = Some (serialize msg send_buf, c')
             \<and> total_bytes c' = total_bytes c \<and> msg_count c' = msg_count c
             \<and> total_latency c' = total_latency c
             \<and> (e' = EPIPE \<or> e' = ECONNRESET \<longrightarrow> c' = c)))
   \<and> (list_all transient pre \<and> len \<le> room_total pre \<longrightarrow>
        send_all (pre @ post) buf len = (Some (Inr len), take len buf))
   \<and> (list_all transient pre \<and> room_total pre < len \<and> err \<noteq> EINTR \<longrightarrow>
        send_all (pre @ Err err # post) buf len = (Some (Inl err), take (room_total pre) buf))
   \<and> (list_all transient pre \<and> room_total pre < len \<longrightarrow>
        send_all pre buf len = (None, take (room_total pre) buf))"
proof -
  have known: "(case send_all answers buf len of
      (Some (Inr n), w) \<Rightarrow> n = len \<and> w = take len buf
    | (Some (Inl e), w) \<Rightarrow> e \<noteq> EINTR \<and> (\<exists>k<len. w = take k buf)
    | (None, w) \<Rightarrow> room_total answers < len)
   \<and> send_all (Err EINTR # answers) buf len = send_all answers buf len
   \<and> (fst (send_all answers (serialize msg send_buf) (nat msg_sz)) = Some (Inl e') \<longrightarrow>
        (\<exists>c'. a1_loop msg_sz msg ((answers, lat) # rest) (send_buf, c)
                 = Some (serialize msg send_buf, c')
             \<and> total_bytes c' = total_bytes c \<and> msg_count c' = msg_count c
             \<and> total_latency c' = total_latency c
             \<and> (e' = EPIPE \<or> e' = ECONNRESET \<longrightarrow> c' = c)))"
    using send_all_cases [where answers = answers and buf = buf and len = len]
      send_all_eintr [where answers = answers and buf = buf and len = len]
      a1_loop_error_pass [where answers = answers and msg = msg and send_buf = send_buf
        and msg_sz = msg_sz and e = e' and lat = lat and rest = rest and c = c]
    by blast
  have full: "list_all transient pre \<and> len \<le> room_total pre \<longrightarrow>
        send_all (pre @ post) buf len = (Some (Inr len), take len buf)"
    using send_all_enough_room by blast
  have failed: "list_all transient pre \<and> room_total pre < len \<and> err \<noteq> EINTR \<longrightarrow>
        send_all (pre @ Err err # post) buf len = (Some (Inl err), take (room_total pre) buf)"
    using send_all_error by blast
  have starved: "list_all transient pre \<and> room_total pre < len \<longrightarrow>
        send_all pre buf len = (None, take (room_total pre) buf)"
    using send_all_starved by blast
  from known full failed starved show ?thesis by (intro conjI) (erule conjE | assumption)+
qed

theorem send_all_partial_completion_witness:
  "fst (send_all [Room 2, Err EPIPE] (serialize msg8 (replicate 8 0)) (nat 8)) = Some (Inl EPIPE)
   \<and> a1_loop 8 msg8 [([Room 2, Err EPIPE], 1), ([Room 8], 1)] (replicate 8 0, counters0)
       = Some (serialize msg8 (replicate 8 0), counters0)
   \<and> send_all (Err EINTR # [Room 3, Room 20]) [1, 2, 3, 4, 5, 6, 7, 8] 8
       = (Some (Inr 8), [1, 2, 3, 4, 5, 6, 7, 8])
   \<and> list_all transient [Room 3, Err EINTR, Room 20]
   \<and> (8 :: nat) \<le> room_total [Room 3, Err EINTR, Room 20]
   \<and> send_all ([Room 3, Err EINTR, Room 20] @ [Err EPIPE]) [1, 2, 3, 4, 5, 6, 7, 8, 9] 8
       = (Some (Inr 8), [1, 2, 3, 4, 5, 6, 7, 8])
   \<and> list_all transient [Room 3, Err EINTR, Room 2]
   \<and> room_total [Room 3, Err EINTR, Room 2] < (8 :: nat)
   \<and> send_all ([Room 3, Err EINTR, Room 2] @ Err ECONNRESET # [Room 9]) [1, 2, 3, 4, 5, 6, 7, 8, 9] 8
       = (Some (Inl ECONNRESET), [1, 2, 3, 4, 5])
   \<and> send_all [Room 3, Err EINTR, Room 2] [1, 2, 3, 4, 5, 6, 7, 8, 9] 8
       = (None, [1, 2, 3, 4, 5])"
proof -
  have broken: "fst (send_all [Room 2, Err EPIPE] (serialize msg8 (replicate 8 0)) (nat 8))
                = Some (Inl EPIPE)"
    by code_simp
  from send_all_partial_completion [where answers = "[Room 2, Err EPIPE]"
      and msg = msg8 and send_buf = "replicate 8 0" and msg_sz = 8 and e' = EPIPE
      and lat = 1 and rest = "[([Room 8], 1)]" and c = counters0] broken
  have stop: "a1_loop 8 msg8 [([Room 2, Err EPIPE], 1), ([Room 8], 1)] (replicate 8 0, counters0)
              = Some (serialize msg8 (replicate 8 0), counters0)"
    by blast
  have "send_all [Room 3, Room 20] [1, 2, 3, 4, 5, 6, 7, 8] 8
        = (Some (Inr 8), [1, 2, 3, 4, 5, 6, 7, 8 :: byte])"
    by code_simp
  with send_all_partial_completion [where answers = "[Room 3, Room 20]"
      and buf = "[1, 2, 3, 4, 5, 6, 7, 8]" and len = 8]
  have retry: "send_all (Err EINTR # [Room 3, Room 20]) [1, 2, 3, 4, 5, 6, 7, 8] 8
               = (Some (Inr 8), [1, 2, 3, 4, 5, 6, 7, 8 :: byte])"
    by simp
  have t1: "list_all transient [Room 3, Err EINTR, Room 20]"
    and r1: "(8 :: nat) \<le> room_total [Room 3, Err EINTR, Room 20]"
    and t2: "list_all transient [Room 3, Err EINTR, Room 2]"
    and r2: "room_total [Room 3, Err EINTR, Room 2] < (8 :: nat)"
    by simp_all
  from send_all_partial_completion [where pre = "[Room 3, Err EINTR, Room 20]"
      and post = "[Err EPIPE]" and buf = "[1, 2, 3, 4, 5, 6, 7, 8, 9]" and len = 8] t1 r1
  have whole: "send_all ([Room 3, Err EINTR, Room 20] @ [Err EPIPE]) [1, 2, 3, 4, 5, 6, 7, 8, 9] 8
       = (Some (Inr 8), [1, 2, 3, 4, 5, 6, 7, 8 :: byte])"
    by simp
  note inst = send_all_partial_completion [where pre = "[Room 3, Err EINTR, Room 2]"
      and post = "[Room 9]" and err = ECONNRESET and buf = "[1, 2, 3, 4, 5, 6, 7, 8, 9]"
      and len = 8]
  from inst t2 r2
  have reset: "send_all ([Room 3, Err EINTR, Room 2] @ Err ECONNRESET # [Room 9])
                 [1, 2, 3, 4, 5, 6, 7, 8, 9] 8
       = (Some (Inl ECONNRESET), [1, 2, 3, 4, 5 :: byte])"
    by simp
  from inst t2 r2
  have starved: "send_all [Room 3, Err EINTR, Room 2] [1, 2, 3, 4, 5, 6, 7, 8, 9] 8
       = (None, [1, 2, 3, 4, 5 :: byte])"
    by simp
  from broken stop retry t1 r1 whole t2 r2 reset starved show ?thesis by blast
qed

section \<open>The two-copy counter\<close>

text \<open>\<open>alloc_message\<close> succeeds only for a message size of at least \<open>NUM_FIELDS\<close>.\<close>

lemma sdiv8_pos_iff: "(0 < m sdiv 8) = (8 \<le> m)" for m :: int
  by (auto simp: signed_divide_int_def sgn_if zero_less_mult_iff pos_imp_zdiv_pos_iff)

lemma alloc_message_small:
  "m < 8 \<Longrightarrow> alloc_message h m = Inl (if h = 0 then Malloc_message_t else Msg_size_too_small)"
  using sdiv8_pos_iff [of m] by (simp add: alloc_message_def NUM_FIELDS_def Let_def)

lemma alloc_message_InrD:
  "alloc_message h m = Inr msg \<Longrightarrow> 8 \<le> m \<and> field_size msg = m sdiv 8 \<and> 0 < field_size msg"
  using sdiv8_pos_iff [of m]
  by (auto simp: alloc_message_def NUM_FIELDS_def Let_def split: if_splits)

lemma a1_loop_counts:
  "a1_loop msg_sz msg passes (buf, counters0) = Some (buf', c') \<Longrightarrow> 0 \<le> msg_sz \<Longrightarrow>
     total_bytes c' = msg_count c' * msg_sz \<and> 0 \<le> msg_count c'"
  using a1_loop_multiple [where c = counters0] by (fastforce simp: counters0_def)

lemma a1_worker_multiple:
  assumes "a1_client_thread ev passes targs = (tr, Returned targs')"
    and "bytes_transferred targs = 0"
  shows "\<exists>k\<ge>0. bytes_transferred targs' = k * msg_size targs"
proof (cases "a1_client_thread ev passes targs = (tr, Returned targs)")
  case True
  with assms have "bytes_transferred targs' = 0 * msg_size targs" by simp
  then show ?thesis by blast
next
  case False
  with assms(1) obtain msg buf c where
    al: "alloc_message (heap ev) (msg_size targs) = Inr msg" and
    lp: "a1_loop (msg_size targs) msg passes
           (map (uninit ev) [0..<nat (msg_size targs)], counters0) = Some (buf, c)" and
    res: "targs' = record_metrics c (elapsed ev) targs"
    by (auto simp: a1_client_thread_def split: if_splits sum.splits option.splits)
  from alloc_message_InrD [OF al] have "0 \<le> msg_size targs" by simp
  from a1_loop_counts [OF lp this] res
  have "0 \<le> msg_count c \<and> bytes_transferred targs' = msg_count c * msg_size targs"
    by (simp add: record_metrics_def)
  then show ?thesis by blast
qed

lemma a1_loop_success_pass:
  assumes "fst (send_all answers (serialize msg send_buf) (nat msg_sz)) = Some (Inr n)"
    and "0 \<le> msg_sz"
  shows "a1_loop msg_sz msg ((answers, lat) # rest) (send_buf, c)
         = a1_loop msg_sz msg rest
             (serialize msg send_buf,
              c\<lparr>total_bytes := total_bytes c + msg_sz, msg_count := msg_count c + 1,
                total_latency := total_latency c + lat\<rparr>)"
  using assms send_all_returns_len [OF assms(1)] by (simp add: Let_def)

text \<open>
  C9. In the two-copy client the byte counter is a non-negative multiple of \<open>msg_size\<close>:
  for the worker's reported \<open>bytes_transferred\<close>, and for the loop after any number of
  passes (every list of passes is a run of the loop). A pass whose \<open>send_all\<close> returns
  the full length adds exactly \<open>msg_size\<close> and one message; a pass whose \<open>send_all\<close>
  returns \<open>-1\<close> ends the loop with both counters unchanged, whatever part of the
  buffer the kernel had accepted before the error.
\<close>

theorem a1_bytes_multiple_of_msg_size:
  "(a1_client_thread ev passes targs = (tr, Returned targs') \<and> bytes_transferred targs = 0
      \<longrightarrow> (\<exists>k\<ge>0. bytes_transferred targs' = k * msg_size targs))
   \<and> (a1_loop msg_sz msg passes (buf, counters0) = Some (buf', c') \<and> 0 \<le> msg_sz
      \<longrightarrow> total_bytes c' = msg_count c' * msg_sz \<and> 0 \<le> msg_count c')
   \<and> (fst (send_all answers (serialize msg buf) (nat msg_sz)) = Some (Inr n) \<and> 0 \<le> msg_sz
      \<longrightarrow> a1_loop msg_sz msg ((answers, lat) # rest) (buf, c)
          = a1_loop msg_sz msg rest
              (serialize msg buf,
               c\<lparr>total_bytes := total_bytes c + msg_sz, msg_count := msg_count c + 1,
                 total_latency := total_latency c + lat\<rparr>))
   \<and> (fst (send_all answers (serialize msg buf) (nat msg_sz)) = Some (Inl e)
      \<longrightarrow> (\<exists>c1. a1_loop msg_sz msg ((answers, lat) # rest) (buf, c)
                  = Some (serialize msg buf, c1)
                \<and> total_bytes c1 = total_bytes c \<and> msg_count c1 = msg_count c))"
proof (intro conjI impI)
  assume "a1_client_thread ev passes targs = (tr, Returned targs') \<and> bytes_transferred targs = 0"
  then show "\<exists>k\<ge>0. bytes_transferred targs' = k * msg_size targs"
    using a1_worker_multiple by blast
next
  assume h: "a1_loop msg_sz msg passes (buf, counters0) = Some (buf', c') \<and> 0 \<le> msg_sz"
  then show "total_bytes c' = msg_count c' * msg_sz" using a1_loop_counts by blast
  from h show "0 \<le> msg_count c'" using a1_loop_counts by blast
next
  assume "fst (send_all answers (serialize msg buf) (nat msg_sz)) = Some (Inr n) \<and> 0 \<le> msg_sz"
  then show "a1_loop msg_sz msg ((answers, lat) # rest) (buf, c)
          = a1_loop msg_sz msg rest
              (serialize msg buf,
               c\<lparr>total_bytes := total_bytes c + msg_sz, msg_count := msg_count c + 1,
                 total_latency := total_latency c + lat\<rparr>)"
    using a1_loop_success_pass by blast
next
  assume "fst (send_all answers (serialize msg buf) (nat msg_sz)) = Some (Inl e)"
  from a1_loop_error_pass [OF this]
  show "\<exists>c1. a1_loop msg_sz msg ((answers, lat) # rest) (buf, c) = Some (serialize msg buf, c1)
              \<and> total_bytes c1 = total_bytes c \<and> msg_count c1 = msg_count c"
    by blast
qed

theorem a1_bytes_multiple_of_msg_size_witness:
  "a1_client_thread env_ok [([Room 8], 1), ([Room 3, Err EPIPE], 1)] (targs_of 8)
     = ([Connect_attempt, Send_config, Payload_loop, Socket_closed],
        Returned \<lparr>thread_id = 0, msg_size = 8, duration = 2, bytes_transferred = 8,
                  elapsed_time = 2, avg_latency_us = Dbl 1\<rparr>)
   \<and> bytes_transferred (targs_of 8) = 0
   \<and> (\<exists>k\<ge>0. (8::int) = k * msg_size (targs_of 8))"
proof -
  have run: "a1_client_thread env_ok [([Room 8], 1), ([Room 3, Err EPIPE], 1)] (targs_of 8)
     = ([Connect_attempt, Send_config, Payload_loop, Socket_closed],
        Returned \<lparr>thread_id = 0, msg_size = 8, duration = 2, bytes_transferred = 8,
                  elapsed_time = 2, avg_latency_us = Dbl 1\<rparr>)"
    by code_simp
  have init: "bytes_transferred (targs_of 8) = 0" by (simp add: targs_of_def)
  from a1_bytes_multiple_of_msg_size [where ev = env_ok
      and passes = "[([Room 8], 1), ([Room 3, Err EPIPE], 1)]" and targs = "targs_of 8"
      and tr = "[Connect_attempt, Send_config, Payload_loop, Socket_closed]"
      and targs' = "\<lparr>thread_id = 0, msg_size = 8, duration = 2, bytes_transferred = 8,
                  elapsed_time = 2, avg_latency_us = Dbl 1\<rparr>"] run init
  have "\<exists>k\<ge>0. (8::int) = k * msg_size (targs_of 8)" by simp
  with run init show ?thesis by blast
qed

section \<open>Rejection of a message size below \<open>NUM_FIELDS\<close>\<close>

text \<open>
  C3 as stated does not hold: the size check sits in \<open>alloc_message\<close>, which each
  worker calls after it has connected and sent the configuration. With \<open>msg_size = 4\<close>
  the diagnostic and the exit follow the connection attempt and the handshake in all
  three clients, and a worker whose connection fails returns without any abort.
\<close>

theorem small_payload_aborts_after_connecting:
  "a1_client_thread env_ok [] (targs_of 4)
     = ([Connect_attempt, Send_config, Diagnostic Msg_size_too_small], Process_exit)
   \<and> a2_client_thread env_ok [] (targs_of 4)
     = ([Connect_attempt, Send_config, Diagnostic Msg_size_too_small], Process_exit)
   \<and> a3_client_thread env_ok [] [] (targs_of 4)
     = ([Connect_attempt, Setsockopt_zerocopy, Send_config, Diagnostic Msg_size_too_small],
        Process_exit)
   \<and> a1_client_thread (env_ok\<lparr>connect_ok := False\<rparr>) [] (targs_of 4)
     = ([Connect_attempt], Returned (targs_of 4))"
  by code_simp

text \<open>
  C3, amended. For every \<open>msg_size < 8\<close> and in all three clients alike: a worker whose
  connection and configuration handshake succeed ends the process in \<open>alloc_message\<close>
  with a diagnostic, after the connection attempt and the handshake (and, in A3, after
  \<open>setsockopt\<close>) and before any payload is sent; a worker whose connection or
  handshake fails returns with its arguments untouched and nothing is aborted.
\<close>

theorem small_payload_rejected_after_handshake:
  assumes "msg_size targs < 8"
  shows "a1_client_thread ev p1 targs
           = (if \<not> connect_ok ev then ([Connect_attempt], Returned targs)
              else if config_ret ev \<noteq> 8 then
                ([Connect_attempt, Send_config, Socket_closed], Returned targs)
              else ([Connect_attempt, Send_config,
                     Diagnostic (if heap ev = 0 then Malloc_message_t else Msg_size_too_small)],
                    Process_exit))
       \<and> a2_client_thread ev p2 targs
           = (if \<not> connect_ok ev then ([Connect_attempt], Returned targs)
              else if config_ret ev \<noteq> 8 then
                ([Connect_attempt, Send_config, Socket_closed], Returned targs)
              else ([Connect_attempt, Send_config,
                     Diagnostic (if heap ev = 0 then Malloc_message_t else Msg_size_too_small)],
                    Process_exit))
       \<and> a3_client_thread ev p3 last_arrived targs
           = (if \<not> connect_ok ev then ([Connect_attempt], Returned targs)
              else if config_ret ev \<noteq> 8 then
                ([Connect_attempt, Setsockopt_zerocopy]
                   @ (if zerocopy_ok ev then [] else [Fallback_notice])
                   @ [Send_config, Socket_closed],
                 Returned targs)
              else ([Connect_attempt, Setsockopt_zerocopy]
                      @ (if zerocopy_ok ev then [] else [Fallback_notice])
                      @ [Send_config,
                         Diagnostic (if heap ev = 0 then Malloc_message_t
                                     else Msg_size_too_small)],
                    Process_exit))"
  using alloc_message_small [OF assms, of "heap ev"]
  by (simp add: a1_client_thread_def a2_client_thread_def a3_client_thread_def Let_def)

theorem small_payload_rejected_after_handshake_witness:
  "msg_size (targs_of 7) < 8
   \<and> a2_client_thread env_ok [(Room 7, 1)] (targs_of 7)
       = ([Connect_attempt, Send_config, Diagnostic Msg_size_too_small], Process_exit)"
  using small_payload_rejected_after_handshake [where targs = "targs_of 7" and ev = env_ok
      and ?p2.0 = "[(Room 7, 1)]"]
  by (simp add: targs_of_def env_ok_def)

section \<open>The average latency of a worker that sent nothing\<close>

lemma record_metrics_finite:
  "avg_latency_us (record_metrics c el targs) \<noteq> NotFinite"
  by (simp add: record_metrics_def)

lemma record_metrics_zero:
  "msg_count c = 0 \<Longrightarrow> avg_latency_us (record_metrics c el targs) = Dbl 0"
  by (simp add: record_metrics_def)

lemma a1_worker_latency_finite:
  "a1_client_thread ev p1 targs = (tr, Returned targs') \<Longrightarrow>
   avg_latency_us targs \<noteq> NotFinite \<Longrightarrow> avg_latency_us targs' \<noteq> NotFinite"
  by (auto simp: a1_client_thread_def record_metrics_finite
           split: if_splits sum.splits option.splits)

lemma a2_worker_latency_finite:
  "a2_client_thread ev p2 targs = (tr, Returned targs') \<Longrightarrow>
   avg_latency_us targs \<noteq> NotFinite \<Longrightarrow> avg_latency_us targs' \<noteq> NotFinite"
  by (auto simp: a2_client_thread_def record_metrics_finite
           split: if_splits sum.splits option.splits)

lemma a3_worker_latency_finite:
  "a3_client_thread ev p3 la targs = (tr, Returned targs') \<Longrightarrow>
   avg_latency_us targs \<noteq> NotFinite \<Longrightarrow> avg_latency_us targs' \<noteq> NotFinite"
  by (auto simp: a3_client_thread_def record_metrics_finite Let_def
           split: if_splits sum.splits option.splits)

lemma a3_run_broken_first:
  "msg_count (a3_run msg ((arrived, Err EPIPE, lat) # rest) la) = 0"
  by (simp add: a3_run_def a3_state0_def Let_def)

text \<open>
  C10. A worker that sent no message reports an average latency of exactly \<open>0.0\<close>: the
  division in step 6 is guarded by \<open>msg_count > 0\<close>. This holds for the metrics step
  shared by the three clients, and in particular when the first pass of each loop finds
  the connection broken; and the latency any of the three workers reports is never the
  non-finite result of a division by zero.
\<close>

theorem zero_messages_zero_latency:
  "(msg_count c = 0 \<longrightarrow> avg_latency_us (record_metrics c el targs) = Dbl 0)
   \<and> (fst (send_all answers (serialize msg buf) (nat msg_sz)) = Some (Inl e) \<longrightarrow>
        (\<exists>b c1. a1_loop msg_sz msg ((answers, lat) # rest1) (buf, counters0) = Some (b, c1)
               \<and> avg_latency_us (record_metrics c1 el targs) = Dbl 0))
   \<and> avg_latency_us (record_metrics (a2_loop msg ((Err EPIPE, lat) # rest2) counters0) el targs)
       = Dbl 0
   \<and> avg_latency_us (record_metrics (a3_run msg ((arrived, Err EPIPE, lat) # rest3) la) el targs)
       = Dbl 0
   \<and> (avg_latency_us targs \<noteq> NotFinite \<longrightarrow>
        (a1_client_thread ev p1 targs = (tr, Returned targs') \<longrightarrow>
           avg_latency_us targs' \<noteq> NotFinite)
      \<and> (a2_client_thread ev p2 targs = (tr, Returned targs') \<longrightarrow>
           avg_latency_us targs' \<noteq> NotFinite)
      \<and> (a3_client_thread ev p3 la targs = (tr, Returned targs') \<longrightarrow>
           avg_latency_us targs' \<noteq> NotFinite))"
proof (intro conjI impI)
  assume "msg_count c = 0"
  then show "avg_latency_us (record_metrics c el targs) = Dbl 0"
    by (rule record_metrics_zero)
next
  assume "fst (send_all answers (serialize msg buf) (nat msg_sz)) = Some (Inl e)"
  from a1_loop_error_pass [OF this, where lat = lat and rest = rest1 and c = counters0]
  obtain c1 where run: "a1_loop msg_sz msg ((answers, lat) # rest1) (buf, counters0)
                          = Some (serialize msg buf, c1)"
    and "msg_count c1 = msg_count counters0"
    by blast
  then have "msg_count c1 = 0" by (simp add: counters0_def)
  then have "avg_latency_us (record_metrics c1 el targs) = Dbl 0"
    by (rule record_metrics_zero)
  with run show "\<exists>b c1. a1_loop msg_sz msg ((answers, lat) # rest1) (buf, counters0)
                         = Some (b, c1)
                       \<and> avg_latency_us (record_metrics c1 el targs) = Dbl 0"
    by blast
next
  have "msg_count (a2_loop msg ((Err EPIPE, lat) # rest2) counters0) = 0"
    by (simp add: counters0_def)
  then show "avg_latency_us
               (record_metrics (a2_loop msg ((Err EPIPE, lat) # rest2) counters0) el targs)
             = Dbl 0"
    by (rule record_metrics_zero)
next
  show "avg_latency_us
          (record_metrics (a3_run msg ((arrived, Err EPIPE, lat) # rest3) la) el targs)
        = Dbl 0"
    by (rule record_metrics_zero) (rule a3_run_broken_first)
next
  assume "avg_latency_us targs \<noteq> NotFinite"
    and "a1_client_thread ev p1 targs = (tr, Returned targs')"
  then show "avg_latency_us targs' \<noteq> NotFinite"
    using a1_worker_latency_finite by blast
next
  assume "avg_latency_us targs \<noteq> NotFinite"
    and "a2_client_thread ev p2 targs = (tr, Returned targs')"
  then show "avg_latency_us targs' \<noteq> NotFinite"
    using a2_worker_latency_finite by blast
next
  assume "avg_latency_us targs \<noteq> NotFinite"
    and "a3_client_thread ev p3 la targs = (tr, Returned targs')"
  then show "avg_latency_us targs' \<noteq> NotFinite"
    using a3_worker_latency_finite by blast
qed

theorem zero_messages_zero_latency_witness:
  "msg_count counters0 = 0
   \<and> avg_latency_us (record_metrics counters0 2 (targs_of 8)) = Dbl 0
   \<and> avg_latency_us (targs_of 8) \<noteq> NotFinite
   \<and> a2_client_thread env_ok [(Err EPIPE, 5), (Room 8, 1)] (targs_of 8)
       = ([Connect_attempt, Send_config, Payload_loop, Socket_closed],
          Returned \<lparr>thread_id = 0, msg_size = 8, duration = 2, bytes_transferred = 0,
                    elapsed_time = 2, avg_latency_us = Dbl 0\<rparr>)
   \<and> avg_latency_us \<lparr>thread_id = 0, msg_size = 8, duration = 2, bytes_transferred = 0,
                       elapsed_time = 2, avg_latency_us = Dbl 0\<rparr> \<noteq> NotFinite"
proof -
  have zero: "msg_count counters0 = 0" by (simp add: counters0_def)
  have init: "avg_latency_us (targs_of 8) \<noteq> NotFinite" by (simp add: targs_of_def)
  have run: "a2_client_thread env_ok [(Err EPIPE, 5), (Room 8, 1)] (targs_of 8)
       = ([Connect_attempt, Send_config, Payload_loop, Socket_closed],
          Returned \<lparr>thread_id = 0, msg_size = 8, duration = 2, bytes_transferred = 0,
                    elapsed_time = 2, avg_latency_us = Dbl 0\<rparr>)"
    by code_simp
  note inst = zero_messages_zero_latency [where c = counters0 and el = 2 and targs = "targs_of 8"
      and ev = env_ok and ?p2.0 = "[(Err EPIPE, 5), (Room 8, 1)]"
      and tr = "[Connect_attempt, Send_config, Payload_loop, Socket_closed]"
      and targs' = "\<lparr>thread_id = 0, msg_size = 8, duration = 2, bytes_transferred = 0,
                    elapsed_time = 2, avg_latency_us = Dbl 0\<rparr>"]
  from inst zero have "avg_latency_us (record_metrics counters0 2 (targs_of 8)) = Dbl 0"
    by blast
  moreover from inst init run
  have "avg_latency_us \<lparr>thread_id = 0, msg_size = 8, duration = 2, bytes_transferred = 0,
                       elapsed_time = 2, avg_latency_us = Dbl 0\<rparr> \<noteq> NotFinite"
    by blast
  ultimately show ?thesis using zero init run by blast
qed

section \<open>The byte counters in the scenario \<open>msg_size = 80000\<close>\<close>

text \<open>
  The bytes one \<open>sendmsg\<close> offers: eight fields of \<open>msg_size / 8\<close> bytes each.
\<close>

lemma gather_length:
  assumes "alloc_message h m = Inr msg"
  shows "int (length (gather (iov_of msg))) = 8 * (m sdiv 8)"
proof -
  from assms have fs: "0 < m sdiv 8" and f: "field_size msg = m sdiv 8"
    and flds: "msg_fields msg = map (\<lambda>i. replicate (nat (m sdiv 8)) (of_nat (65 + i))) [0..<8]"
    by (auto simp: alloc_message_def NUM_FIELDS_def Let_def split: if_splits)
  have "iov_of msg = map (\<lambda>i. (replicate (nat (m sdiv 8)) (of_nat (65 + i)), nat (m sdiv 8))) [0..<8]"
    unfolding iov_of_def NUM_FIELDS_def f flds by (rule map_cong) auto
  then have "length (gather (iov_of msg)) = 8 * nat (m sdiv 8)"
    by (simp add: gather_def length_concat comp_def sum_list_triv)
  with fs show ?thesis by simp
qed

lemma a2_loop_full_sends:
  "list_all (\<lambda>(r, lat). full_send (length (gather (iov_of msg))) r) passes \<Longrightarrow>
   total_bytes (a2_loop msg passes c) - total_bytes c
     = (msg_count (a2_loop msg passes c) - msg_count c) * int (length (gather (iov_of msg)))"
proof (induction passes arbitrary: c)
  case Nil
  then show ?case by simp
next
  case (Cons p rest)
  obtain r lat where p: "p = (r, lat)" by (cases p)
  show ?case
  proof (cases r)
    case (Err e)
    with p Cons show ?thesis by simp
  next
    case (Room n)
    let ?k = "length (gather (iov_of msg))"
    let ?c = "c\<lparr>total_bytes := total_bytes c + int ?k, msg_count := msg_count c + 1,
                  total_latency := total_latency c + lat\<rparr>"
    from Cons.prems p Room have full: "?k \<le> n" by simp
    then have step: "a2_loop msg (p # rest) c = a2_loop msg rest ?c"
      using p Room by (simp add: min_def)
    from Cons.prems have "list_all (\<lambda>(r, lat). full_send ?k r) rest" by simp
    from Cons.IH [OF this, of ?c] step show ?thesis by (simp add: algebra_simps)
  qed
qed

lemma a2_worker_result:
  assumes "a2_client_thread ev p2 targs = (tr, Returned targs')"
    and "bytes_transferred targs = 0" and "8 \<le> msg_size targs"
  shows "bytes_transferred targs' = 0 \<or>
         (\<exists>msg. alloc_message (heap ev) (msg_size targs) = Inr msg
                \<and> bytes_transferred targs' = total_bytes (a2_loop msg p2 counters0))"
  using assms
  by (auto simp: a2_client_thread_def record_metrics_def split: if_splits sum.splits)

lemma alloc_message_80000:
  "\<exists>msg. alloc_message 10 80000 = Inr msg"
  by (simp add: alloc_message_def NUM_FIELDS_def signed_divide_int_def Let_def)

text \<open>
  C5 as stated does not hold for the scatter-gather client: its loop adds the return
  value of \<open>sendmsg\<close> as it is. When the kernel takes 12345 bytes of the second
  message, the worker reports 92345 bytes, which is not a multiple of the field size
  10000.
\<close>

theorem short_sendmsg_counted_as_is:
  "a2_client_thread env_ok [(Room 80000, 1), (Room 12345, 1)] (targs_of 80000)
     = ([Connect_attempt, Send_config, Payload_loop, Socket_closed],
        Returned \<lparr>thread_id = 0, msg_size = 80000, duration = 2, bytes_transferred = 92345,
                  elapsed_time = 2, avg_latency_us = Dbl 1\<rparr>)
   \<and> (92345 :: int) mod (80000 sdiv int NUM_FIELDS) = 2345"
proof -
  from alloc_message_80000 obtain msg where al: "alloc_message 10 80000 = Inr msg" ..
  from gather_length [OF al] have len: "length (gather (iov_of msg)) = 80000"
    by (simp add: signed_divide_int_def)
  have "a2_client_thread env_ok [(Room 80000, 1), (Room 12345, 1)] (targs_of 80000)
     = ([Connect_attempt, Send_config, Payload_loop, Socket_closed],
        Returned \<lparr>thread_id = 0, msg_size = 80000, duration = 2, bytes_transferred = 92345,
                  elapsed_time = 2, avg_latency_us = Dbl 1\<rparr>)"
    unfolding a2_client_thread_def
    by (simp add: env_ok_def targs_of_def al len counters0_def record_metrics_def)
  moreover have "(92345 :: int) mod (80000 sdiv int NUM_FIELDS) = 2345"
    by (simp add: NUM_FIELDS_def signed_divide_int_def)
  ultimately show ?thesis by blast
qed

text \<open>
  In the scenario both byte counters are multiples of the field size as long as no
  \<open>sendmsg\<close> call is cut short.
\<close>

lemma counts_mod_field_size_80000:
  assumes "msg_size targs = 80000" and "bytes_transferred targs = 0"
  shows "(a1_client_thread ev p1 targs = (tr, Returned targs')
            \<longrightarrow> bytes_transferred targs' mod (msg_size targs sdiv int NUM_FIELDS) = 0)
       \<and> (a2_client_thread ev p2 targs = (tr, Returned targs')
            \<and> list_all (\<lambda>(r, lat). full_send 80000 r) p2
            \<longrightarrow> bytes_transferred targs' mod (msg_size targs sdiv int NUM_FIELDS) = 0)"
proof -
  have fs: "msg_size targs sdiv int NUM_FIELDS = 10000"
    using assms(1) by (simp add: NUM_FIELDS_def signed_divide_int_def)
  have a1: "bytes_transferred targs' mod 10000 = 0"
    if "a1_client_thread ev p1 targs = (tr, Returned targs')"
  proof -
    from a1_worker_multiple [OF that assms(2)] obtain k
      where "bytes_transferred targs' = k * 80000" using assms(1) by auto
    then show ?thesis by simp
  qed
  have a2: "bytes_transferred targs' mod 10000 = 0"
    if run: "a2_client_thread ev p2 targs = (tr, Returned targs')"
      and full: "list_all (\<lambda>(r, lat). full_send 80000 r) p2"
  proof -
    from a2_worker_result [OF run assms(2)] assms(1)
    consider "bytes_transferred targs' = 0"
      | msg where "alloc_message (heap ev) 80000 = Inr msg"
          "bytes_transferred targs' = total_bytes (a2_loop msg p2 counters0)"
      by auto
    then show ?thesis
    proof cases
      case 1
      then show ?thesis by simp
    next
      case 2
      from gather_length [OF 2(1)] have len: "length (gather (iov_of msg)) = 80000"
        by (simp add: signed_divide_int_def)
      with full have "list_all (\<lambda>(r, lat). full_send (length (gather (iov_of msg))) r) p2"
        by simp
      from a2_loop_full_sends [OF this, of counters0] len 2(2)
      have "bytes_transferred targs' = msg_count (a2_loop msg p2 counters0) * 80000"
        by (simp add: counters0_def)
      then show ?thesis by simp
    qed
  qed
  from a1 a2 fs show ?thesis by simp
qed

text \<open>
  The byte counters in terms of the kernel's answers: the scatter-gather loop adds up
  what \<open>sendmsg\<close> returns, and the two-copy loop adds \<open>msg_size\<close> for every pass whose
  \<open>send_all\<close> completes.
\<close>

lemma alloc_message_succeeds:
  assumes "9 \<le> h" and "8 \<le> m"
  shows "\<exists>msg. alloc_message h m = Inr msg"
proof -
  from assms(2) have "\<not> m sdiv 8 \<le> 0" using sdiv8_pos_iff [of m] by simp
  moreover from assms(1) have "h \<noteq> 0" and "\<not> h - 1 < 8" by simp_all
  ultimately show ?thesis
    by (simp add: alloc_message_def NUM_FIELDS_def Let_def)
qed

lemma a2_loop_total:
  "total_bytes (a2_loop msg passes c)
   = total_bytes c + int (a2_accepted (length (gather (iov_of msg))) passes)"
proof (induction passes arbitrary: c)
  case Nil
  then show ?case by simp
next
  case (Cons p rest)
  obtain r lat where p: "p = (r, lat)" by (cases p)
  show ?case
  proof (cases r)
    case (Err e)
    with p Cons.IH [of c] show ?thesis by simp
  next
    case (Room n)
    let ?k = "length (gather (iov_of msg))"
    let ?c = "c\<lparr>total_bytes := total_bytes c + int (min n ?k), msg_count := msg_count c + 1,
                  total_latency := total_latency c + lat\<rparr>"
    have step: "a2_loop msg (p # rest) c = a2_loop msg rest ?c"
      using p Room by simp
    have "total_bytes (a2_loop msg rest ?c) = total_bytes ?c + int (a2_accepted ?k rest)"
      by (rule Cons.IH)
    with step p Room show ?thesis by simp
  qed
qed

lemma a2_worker_sum:
  assumes "connect_ok ev" and "config_ret ev = 8" and "9 \<le> heap ev"
    and "msg_size targs = 80000"
  shows "\<exists>targs'. a2_client_thread ev p2 targs
                  = ([Connect_attempt, Send_config, Payload_loop, Socket_closed],
                     Returned targs')
               \<and> bytes_transferred targs' = int (a2_accepted 80000 p2)"
proof -
  from alloc_message_succeeds [of "heap ev" 80000] assms(3)
  obtain msg where al: "alloc_message (heap ev) 80000 = Inr msg" by auto
  from gather_length [OF al] have len: "length (gather (iov_of msg)) = 80000"
    by (simp add: signed_divide_int_def)
  have "total_bytes (a2_loop msg p2 counters0) = int (a2_accepted 80000 p2)"
    using a2_loop_total [of msg p2 counters0] len by (simp add: counters0_def)
  with assms al show ?thesis
    by (simp add: a2_client_thread_def record_metrics_def)
qed

lemma send_all_whole_pass:
  assumes "whole_pass len p"
  shows "fst (send_all (fst p) buf len) = Some (Inr len)"
  using send_all_enough_room [of "fst p" len "[]" buf] assms by (simp add: whole_pass_def)

lemma a1_loop_whole_passes:
  assumes "list_all (whole_pass (nat msg_sz)) passes" and "0 \<le> msg_sz"
  shows "\<exists>buf' c'. a1_loop msg_sz msg passes (buf, c) = Some (buf', c')
                   \<and> total_bytes c' = total_bytes c + int (length passes) * msg_sz
                   \<and> msg_count c' = msg_count c + int (length passes)"
  using assms(1)
proof (induction passes arbitrary: buf c)
  case Nil
  then show ?case by simp
next
  case (Cons p rest)
  obtain answers lat where p: "p = (answers, lat)" by (cases p)
  let ?c = "c\<lparr>total_bytes := total_bytes c + msg_sz, msg_count := msg_count c + 1,
                total_latency := total_latency c + lat\<rparr>"
  from Cons.prems p have "whole_pass (nat msg_sz) (answers, lat)" by simp
  from send_all_whole_pass [OF this, of "serialize msg buf"]
  have "fst (send_all answers (serialize msg buf) (nat msg_sz)) = Some (Inr (nat msg_sz))"
    by simp
  from a1_loop_success_pass [OF this assms(2)]
  have step: "a1_loop msg_sz msg (p # rest) (buf, c)
              = a1_loop msg_sz msg rest (serialize msg buf, ?c)"
    using p by simp
  from Cons.prems have "list_all (whole_pass (nat msg_sz)) rest" by simp
  from Cons.IH [OF this, of "serialize msg buf" ?c] obtain buf' c'
    where "a1_loop msg_sz msg rest (serialize msg buf, ?c) = Some (buf', c')"
      and "total_bytes c' = total_bytes ?c + int (length rest) * msg_sz"
      and "msg_count c' = msg_count ?c + int (length rest)"
    by blast
  with step show ?case by (simp add: algebra_simps)
qed

lemma a1_worker_whole_passes:
  assumes "connect_ok ev" and "config_ret ev = 8" and "10 \<le> heap ev"
    and "msg_size targs = 80000" and "list_all (whole_pass 80000) p1"
  shows "\<exists>targs'. a1_client_thread ev p1 targs
                  = ([Connect_attempt, Send_config, Payload_loop, Socket_closed],
                     Returned targs')
               \<and> bytes_transferred targs' = 80000 * int (length p1)"
proof -
  from alloc_message_succeeds [of "heap ev" 80000] assms(3)
  obtain msg where al: "alloc_message (heap ev) 80000 = Inr msg" by auto
  from assms(5) have "list_all (whole_pass (nat 80000)) p1" by simp
  from a1_loop_whole_passes [OF this, of msg "map (uninit ev) [0..<nat 80000]" counters0]
  obtain buf' c' where
    "a1_loop 80000 msg p1 (map (uninit ev) [0..<nat 80000], counters0) = Some (buf', c')"
    and "total_bytes c' = 80000 * int (length p1)"
    by (auto simp: counters0_def)
  with assms(1-4) al show ?thesis
    by (simp add: a1_client_thread_def record_metrics_def)
qed

text \<open>
  C5, amended. In the scenario \<open>msg_size = 80000\<close> (field size 10000), the two-copy
  worker's \<open>bytes_transferred\<close> is always a multiple of the field size, and it is
  80000 times the number of passes when \<open>send_all\<close> completes in each; the
  scatter-gather worker's \<open>bytes_transferred\<close> is the sum of the values \<open>sendmsg\<close>
  returned, and it is a multiple of the field size whenever no \<open>sendmsg\<close> call was cut
  short.
\<close>

theorem whole_iteration_counts_80000:
  assumes "msg_size targs = 80000" and "bytes_transferred targs = 0"
  shows "(a1_client_thread ev p1 targs = (tr, Returned targs')
            \<longrightarrow> bytes_transferred targs' mod (msg_size targs sdiv int NUM_FIELDS) = 0)
       \<and> (a2_client_thread ev p2 targs = (tr, Returned targs')
            \<and> list_all (\<lambda>(r, lat). full_send 80000 r) p2
            \<longrightarrow> bytes_transferred targs' mod (msg_size targs sdiv int NUM_FIELDS) = 0)
       \<and> (connect_ok ev \<and> config_ret ev = 8 \<and> 9 \<le> heap ev
            \<longrightarrow> (\<exists>res. a2_client_thread ev p2 targs
                          = ([Connect_attempt, Send_config, Payload_loop, Socket_closed],
                             Returned res)
                       \<and> bytes_transferred res = int (a2_accepted 80000 p2)))
       \<and> (connect_ok ev \<and> config_ret ev = 8 \<and> 10 \<le> heap ev
            \<and> list_all (whole_pass 80000) p1
            \<longrightarrow> (\<exists>res. a1_client_thread ev p1 targs
                          = ([Connect_attempt, Send_config, Payload_loop, Socket_closed],
                             Returned res)
                       \<and> bytes_transferred res = 80000 * int (length p1)))"
proof (intro conjI impI)
  assume "a1_client_thread ev p1 targs = (tr, Returned targs')"
  with counts_mod_field_size_80000 [OF assms, of ev p1 tr targs']
  show "bytes_transferred targs' mod (msg_size targs sdiv int NUM_FIELDS) = 0"
    by blast
next
  assume "a2_client_thread ev p2 targs = (tr, Returned targs')
            \<and> list_all (\<lambda>(r, lat). full_send 80000 r) p2"
  with counts_mod_field_size_80000 [OF assms, of ev _ tr targs' p2]
  show "bytes_transferred targs' mod (msg_size targs sdiv int NUM_FIELDS) = 0"
    by blast
next
  assume "connect_ok ev \<and> config_ret ev = 8 \<and> 9 \<le> heap ev"
  then show "\<exists>res. a2_client_thread ev p2 targs
                          = ([Connect_attempt, Send_config, Payload_loop, Socket_closed],
                             Returned res)
                       \<and> bytes_transferred res = int (a2_accepted 80000 p2)"
    using a2_worker_sum [OF _ _ _ assms(1)] by blast
next
  assume "connect_ok ev \<and> config_ret ev = 8 \<and> 10 \<le> heap ev
            \<and> list_all (whole_pass 80000) p1"
  then show "\<exists>res. a1_client_thread ev p1 targs
                          = ([Connect_attempt, Send_config, Payload_loop, Socket_closed],
                             Returned res)
                       \<and> bytes_transferred res = 80000 * int (length p1)"
    using a1_worker_whole_passes [OF _ _ _ assms(1)] by blast
qed

theorem whole_iteration_counts_80000_witness:
  "msg_size (targs_of 80000) = 80000 \<and> bytes_transferred (targs_of 80000) = 0
   \<and> connect_ok env_ok \<and> config_ret env_ok = 8 \<and> 10 \<le> heap env_ok
   \<and> list_all (\<lambda>(r, lat). full_send 80000 r)
         [(Room 80000, 1 :: real), (Err EINTR, 1), (Room 90000, 1)]
   \<and> a2_client_thread env_ok [(Room 80000, 1), (Err EINTR, 1), (Room 90000, 1)] (targs_of 80000)
       = ([Connect_attempt, Send_config, Payload_loop, Socket_closed],
          Returned \<lparr>thread_id = 0, msg_size = 80000, duration = 2, bytes_transferred = 160000,
                    elapsed_time = 2, avg_latency_us = Dbl 1\<rparr>)
   \<and> int (a2_accepted 80000 [(Room 80000, 1), (Err EINTR, 1), (Room 90000, 1)]) = 160000
   \<and> a1_client_thread env_ok
         [([Room 30000, Err EINTR, Room 50000], 1), ([Room 30000, Err EPIPE], 1)]
         (targs_of 80000)
       = ([Connect_attempt, Send_config, Payload_loop, Socket_closed],
          Returned \<lparr>thread_id = 0, msg_size = 80000, duration = 2, bytes_transferred = 80000,
                    elapsed_time = 2, avg_latency_us = Dbl 1\<rparr>)
   \<and> list_all (whole_pass 80000) [([Room 30000, Err EINTR, Room 50000], 1), ([Room 80000], 1)]
   \<and> (\<exists>res. a1_client_thread env_ok
                 [([Room 30000, Err EINTR, Room 50000], 1), ([Room 80000], 1)] (targs_of 80000)
               = ([Connect_attempt, Send_config, Payload_loop, Socket_closed], Returned res)
             \<and> bytes_transferred res = 160000)
   \<and> (160000 :: int) mod (msg_size (targs_of 80000) sdiv int NUM_FIELDS) = 0
   \<and> (80000 :: int) mod (msg_size (targs_of 80000) sdiv int NUM_FIELDS) = 0"
proof -
  let ?p2 = "[(Room 80000, 1), (Err EINTR, 1), (Room 90000, 1 :: real)]"
  let ?p1 = "[([Room 30000, Err EINTR, Room 50000], 1 :: real), ([Room 30000, Err EPIPE], 1)]"
  let ?q1 = "[([Room 30000, Err EINTR, Room 50000], 1 :: real), ([Room 80000], 1)]"
  let ?tr = "[Connect_attempt, Send_config, Payload_loop, Socket_closed]"
  let ?r2 = "\<lparr>thread_id = 0, msg_size = 80000, duration = 2, bytes_transferred = 160000,
              elapsed_time = 2, avg_latency_us = Dbl 1\<rparr>"
  let ?r1 = "\<lparr>thread_id = 0, msg_size = 80000, duration = 2, bytes_transferred = 80000,
              elapsed_time = 2, avg_latency_us = Dbl 1\<rparr>"
  from alloc_message_80000 obtain msg where al: "alloc_message 10 80000 = Inr msg" ..
  from gather_length [OF al] have len: "length (gather (iov_of msg)) = 80000"
    by (simp add: signed_divide_int_def)
  have size: "msg_size (targs_of 80000) = 80000" and init: "bytes_transferred (targs_of 80000) = 0"
    by (simp_all add: targs_of_def)
  have ok: "connect_ok env_ok" "config_ret env_ok = 8" "10 \<le> heap env_ok" "9 \<le> heap env_ok"
    by (simp_all add: env_ok_def)
  have full: "list_all (\<lambda>(r, lat). full_send 80000 r) ?p2" by simp
  have acc: "int (a2_accepted 80000 ?p2) = 160000" by simp
  have whole: "list_all (whole_pass 80000) ?q1" by (simp add: whole_pass_def)
  have run2: "a2_client_thread env_ok ?p2 (targs_of 80000) = (?tr, Returned ?r2)"
    unfolding a2_client_thread_def
    by (simp add: env_ok_def targs_of_def al len counters0_def record_metrics_def)
  have s1: "fst (send_all [Room 30000, Err EINTR, Room 50000] buf 80000) = Some (Inr 80000)" for buf
    using send_all_enough_room [of "[Room 30000, Err EINTR, Room 50000]" 80000 "[]" buf] by simp
  have s2: "fst (send_all [Room 30000, Err EPIPE] buf 80000) = Some (Inl EPIPE)" for buf
    using send_all_error [of "[Room 30000]" 80000 EPIPE "[]" buf] by simp
  have run1: "a1_client_thread env_ok ?p1 (targs_of 80000) = (?tr, Returned ?r1)"
    unfolding a1_client_thread_def
    by (simp add: env_ok_def targs_of_def al s1 s2 Let_def counters0_def record_metrics_def)
  note inst = whole_iteration_counts_80000 [OF size init, where ev = env_ok and tr = ?tr]
  from inst [where ?p2.0 = ?p2 and targs' = ?r2] run2 full
  have m2: "(160000 :: int) mod (msg_size (targs_of 80000) sdiv int NUM_FIELDS) = 0" by simp
  from inst [where ?p1.0 = ?p1 and targs' = ?r1] run1
  have m1: "(80000 :: int) mod (msg_size (targs_of 80000) sdiv int NUM_FIELDS) = 0" by simp
  from inst [where ?p1.0 = ?q1] ok whole
  have w1: "\<exists>res. a1_client_thread env_ok ?q1 (targs_of 80000) = (?tr, Returned res)
                 \<and> bytes_transferred res = 160000"
    by simp
  show ?thesis
    by (intro conjI; rule size init ok full run2 acc run1 whole w1 m2 m1)
qed

section \<open>The zero-copy loop: drains, exhaustion and the drain counter\<close>

text \<open>
  A drain empties the error queue, and the counters of the loop depend neither on the
  completion messages that arrive nor on passes that fail with \<open>ENOBUFS\<close>.
\<close>

lemma drain_completions_empties: "drain_completions q = []"
  by (induction q) (simp_all split: unit.split)

lemma a3_loop_enobufs:
  "a3_loop msg ((arrived, Err ENOBUFS, lat) # rest) s = a3_loop msg rest (s\<lparr>errqueue := []\<rparr>)"
  by (simp add: Let_def drain_completions_empties)

lemma a3_counts_queue: "a3_counts (s\<lparr>errqueue := q\<rparr>) = a3_counts s"
  by (simp add: a3_counts_def)

lemma a3_loop_counts_cong:
  "a3_counts s = a3_counts s' \<Longrightarrow>
   a3_counts (a3_loop msg (filter (\<lambda>(a, r, l). r \<noteq> Err ENOBUFS) passes) s')
     = a3_counts (a3_loop msg passes s)"
proof (induction passes arbitrary: s s')
  case Nil
  then show ?case by simp
next
  case (Cons p rest)
  obtain a r l where p: "p = (a, r, l)" by (cases p)
  show ?case
  proof (cases r)
    case (Err e)
    show ?thesis
    proof (cases "e = ENOBUFS")
      case True
      have "a3_counts (s\<lparr>errqueue := []\<rparr>) = a3_counts s'"
        using Cons.prems by (simp add: a3_counts_def)
      from Cons.IH [OF this] show ?thesis
        using p Err True a3_loop_enobufs [of msg a lat rest s for lat] by simp
    next
      case False
      have eq: "a3_counts (s\<lparr>errqueue := errqueue s @ a\<rparr>)
                = a3_counts (s'\<lparr>errqueue := errqueue s' @ a\<rparr>)"
        using Cons.prems by (simp add: a3_counts_def)
      show ?thesis
      proof (cases "e = EINTR")
        case True
        with p Err False Cons.IH [OF eq] show ?thesis by (simp add: Let_def)
      next
        case nintr: False
        with p Err False Cons.prems show ?thesis
          by (simp add: Let_def a3_counts_def)
      qed
    qed
  next
    case (Room n)
    let ?k = "int (min n (length (gather (iov_of msg))))"
    let ?upd = "\<lambda>t :: a3_state. t\<lparr>errqueue := errqueue t @ a\<rparr>
                   \<lparr>total_bytes := total_bytes t + ?k, msg_count := msg_count t + 1,
                    total_latency := total_latency t + l\<rparr>"
    from Cons.prems have dc: "drain_counter s = drain_counter s'"
      by (simp add: a3_counts_def)
    show ?thesis
    proof (cases "drain_counter s + 1 \<ge> 64")
      case True
      let ?t = "(?upd s)\<lparr>drain_counter := 0, errqueue := drain_completions (errqueue (?upd s))\<rparr>"
      let ?t' = "(?upd s')\<lparr>drain_counter := 0, errqueue := drain_completions (errqueue (?upd s'))\<rparr>"
      have "a3_counts ?t = a3_counts ?t'"
        using Cons.prems by (simp add: a3_counts_def)
      from Cons.IH [OF this] show ?thesis
        using p Room True dc by (simp add: Let_def)
    next
      case False
      let ?t = "(?upd s)\<lparr>drain_counter := drain_counter s + 1\<rparr>"
      let ?t' = "(?upd s')\<lparr>drain_counter := drain_counter s' + 1\<rparr>"
      have "a3_counts ?t = a3_counts ?t'"
        using Cons.prems by (simp add: a3_counts_def)
      from Cons.IH [OF this] show ?thesis
        using p Room False dc by (simp add: Let_def)
    qed
  qed
qed



text \<open>
  C4. When \<open>sendmsg\<close> fails with \<open>ENOBUFS\<close>, the zero-copy worker drains the error
  queue until it is empty and goes on with the next pass of the loop (the retry, after
  the time check); no counter changes. A send that succeeds after the failure is
  counted once: the byte and message counters advance by that send alone, and a run
  has the same counters as the run without its \<open>ENOBUFS\<close> failures.
\<close>

theorem enobufs_drains_and_retries:
  "a3_loop msg ((arrived, Err ENOBUFS, lat) # rest) s = a3_loop msg rest (s\<lparr>errqueue := []\<rparr>)
   \<and> a3_counts (a3_loop msg [(arrived, Err ENOBUFS, lat)] s) = a3_counts s
   \<and> errqueue (a3_loop msg [(arrived, Err ENOBUFS, lat)] s) = []
   \<and> total_bytes (a3_loop msg [(arrived, Err ENOBUFS, lat), (arrived', Room n, lat')] s)
       = total_bytes s + int (min n (length (gather (iov_of msg))))
   \<and> msg_count (a3_loop msg [(arrived, Err ENOBUFS, lat), (arrived', Room n, lat')] s)
       = msg_count s + 1
   \<and> a3_counts (a3_loop msg (filter (\<lambda>(a, r, l). r \<noteq> Err ENOBUFS) passes) s)
       = a3_counts (a3_loop msg passes s)"
proof -
  have step: "a3_loop msg ((arrived, Err ENOBUFS, lat) # rest) s
              = a3_loop msg rest (s\<lparr>errqueue := []\<rparr>)" for rest
    by (rule a3_loop_enobufs)
  have "a3_counts (a3_loop msg (filter (\<lambda>(a, r, l). r \<noteq> Err ENOBUFS) passes) s)
        = a3_counts (a3_loop msg passes s)"
    by (rule a3_loop_counts_cong) simp
  then show ?thesis
    unfolding step by (simp add: a3_counts_def Let_def)
qed




section \<open>The aggregated report\<close>

lemma aggregate_fold:
  "fold (\<lambda>t (all_bytes, max_elapsed, total_lat).
             (all_bytes + bytes_transferred t,
              (if elapsed_time t > max_elapsed then elapsed_time t else max_elapsed),
              dadd total_lat (avg_latency_us t)))
        targs (b, m, l)
   = (b + sum_list (map bytes_transferred targs),
      fold (\<lambda>t m. if elapsed_time t > m then elapsed_time t else m) targs m,
      fold (\<lambda>t l. dadd l (avg_latency_us t)) targs l)"
  by (induction targs arbitrary: b m l) (simp_all add: add.assoc)

lemma max_elapsed_fold:
  "fold (\<lambda>t m. if elapsed_time t > m then elapsed_time t else m) targs m
   = Max (insert m (elapsed_time ` set targs))"
proof (induction targs arbitrary: m)
  case Nil
  then show ?case by simp
next
  case (Cons t rest)
  have "Max (insert (max m (elapsed_time t)) (elapsed_time ` set rest))
        = Max (insert m (insert (elapsed_time t) (elapsed_time ` set rest)))"
    by (cases "rest = []") (simp_all add: max.assoc)
  moreover have "(if elapsed_time t > m then elapsed_time t else m) = max m (elapsed_time t)"
    by (simp add: max_def)
  ultimately show ?case using Cons.IH by simp
qed

lemma max_elapsed_nonneg:
  assumes "targs \<noteq> []" and "\<forall>t\<in>set targs. 0 \<le> elapsed_time t"
  shows "Max (insert 0 (elapsed_time ` set targs)) = Max (elapsed_time ` set targs)"
proof -
  from assms(1) obtain t where t: "t \<in> set targs" by (cases targs) auto
  have "elapsed_time t \<le> Max (elapsed_time ` set targs)"
    using t by (intro Max_ge) auto
  moreover have "0 \<le> elapsed_time t" using assms(2) t by blast
  ultimately have "0 \<le> Max (elapsed_time ` set targs)" by linarith
  then show ?thesis
    using t by (subst Max_insert) (auto simp: max_def)
qed

lemma latency_fold:
  "map avg_latency_us targs = map Dbl xs \<Longrightarrow>
   fold (\<lambda>t l. dadd l (avg_latency_us t)) targs (Dbl l0) = Dbl (l0 + sum_list xs)"
proof (induction targs arbitrary: xs l0)
  case Nil
  then show ?case by simp
next
  case (Cons t rest)
  then obtain x xs' where xs: "xs = x # xs'" "avg_latency_us t = Dbl x"
    "map avg_latency_us rest = map Dbl xs'"
    by (cases xs) auto
  from Cons.IH [OF xs(3), of "l0 + x"] xs show ?case by (simp add: add.assoc)
qed

lemma throughput_formula:
  "el \<noteq> 0 \<Longrightarrow> throughput_gbps b el = Dbl (real_of_int b * 8 / (el * 1000000000))"
  by (simp add: throughput_gbps_def)

text \<open>
  C7. For at least one worker and elapsed times that are not negative (they are
  differences of two clock readings), the report's total is the sum of the workers'
  bytes, its elapsed time the maximum of the workers' elapsed times, and its throughput
  is computed from these two as \<open>total * 8 / (elapsed * 1e9)\<close> whenever the elapsed time
  is not zero; a total of 1000000000 bytes in 8.0 seconds gives 1.0.
\<close>

theorem aggregated_throughput:
  assumes "targs \<noteq> []" and "\<forall>t\<in>set targs. 0 \<le> elapsed_time t"
  shows "fst (report targs) = sum_list (map bytes_transferred targs)
       \<and> fst (snd (report targs)) = Max (elapsed_time ` set targs)
       \<and> fst (snd (snd (report targs)))
           = throughput_gbps (sum_list (map bytes_transferred targs))
               (Max (elapsed_time ` set targs))
       \<and> (el \<noteq> 0 \<longrightarrow>
            throughput_gbps b el = Dbl (real_of_int b * 8 / (el * 1000000000)))
       \<and> throughput_gbps 1000000000 8 = Dbl 1"
proof -
  have "aggregate targs
        = (sum_list (map bytes_transferred targs), Max (elapsed_time ` set targs),
           fold (\<lambda>t l. dadd l (avg_latency_us t)) targs (Dbl 0))"
    unfolding aggregate_def aggregate_fold max_elapsed_fold max_elapsed_nonneg [OF assms]
    by simp
  then show ?thesis
    by (simp add: report_def throughput_gbps_def)
qed

theorem aggregated_throughput_witness:
  "[worker_result 400000000 8 10, worker_result 600000000 (15 / 2) 20] \<noteq> []
   \<and> 0 \<le> elapsed_time (worker_result 400000000 8 10)
   \<and> 0 \<le> elapsed_time (worker_result 600000000 (15 / 2) 20)
   \<and> fst (report [worker_result 400000000 8 10, worker_result 600000000 (15 / 2) 20])
       = 1000000000
   \<and> fst (snd (report [worker_result 400000000 8 10, worker_result 600000000 (15 / 2) 20]))
       = 8
   \<and> fst (snd (snd (report [worker_result 400000000 8 10,
                              worker_result 600000000 (15 / 2) 20])))
       = Dbl 1"
proof -
  let ?ws = "[worker_result 400000000 8 10, worker_result 600000000 (15 / 2) 20]"
  have ne: "?ws \<noteq> []" by simp
  have pos: "\<forall>t\<in>set ?ws. 0 \<le> elapsed_time t" by (simp add: worker_result_def)
  have mx: "Max (elapsed_time ` set ?ws) = 8" by (simp add: worker_result_def)
  have sm: "sum_list (map bytes_transferred ?ws) = 1000000000" by (simp add: worker_result_def)
  from aggregated_throughput [OF ne pos, where el = 8 and b = 1000000000] mx sm
  have "fst (report ?ws) = 1000000000 \<and> fst (snd (report ?ws)) = 8
        \<and> fst (snd (snd (report ?ws))) = Dbl 1"
    by simp
  with pos show ?thesis by simp
qed

text \<open>
  C8. The aggregated latency is the sum of the per-worker averages divided by the number
  of workers, whatever the workers' byte counts; the averages 10, 20 and 30 give 20.
\<close>

theorem aggregated_latency_is_unweighted_mean:
  assumes "map avg_latency_us targs = map Dbl xs" and "targs \<noteq> []"
  shows "avg_latency targs = Dbl (sum_list xs / real (length xs))
       \<and> snd (snd (snd (report targs))) = Dbl (sum_list xs / real (length xs))"
proof -
  from assms(1) have len: "length targs = length xs"
    by (metis length_map)
  with assms(2) have pos: "real (length xs) \<noteq> 0" by (cases xs) auto
  have "snd (snd (aggregate targs)) = Dbl (sum_list xs)"
    unfolding aggregate_def aggregate_fold using latency_fold [OF assms(1), of 0] by simp
  with len pos have "avg_latency targs = Dbl (sum_list xs / real (length xs))"
    by (simp add: avg_latency_def)
  then show ?thesis by (simp add: report_def split: prod.splits)
qed

theorem aggregated_latency_is_unweighted_mean_witness:
  "map avg_latency_us [worker_result 1000 2 10, worker_result 500000 2 20, worker_result 7 2 30]
     = map Dbl [10, 20, 30]
   \<and> [worker_result 1000 2 10, worker_result 500000 2 20, worker_result 7 2 30] \<noteq> []
   \<and> avg_latency [worker_result 1000 2 10, worker_result 500000 2 20, worker_result 7 2 30]
       = Dbl 20"
proof -
  let ?ws = "[worker_result 1000 2 10, worker_result 500000 2 20, worker_result 7 2 30]"
  have avgs: "map avg_latency_us ?ws = map Dbl [10, 20, 30]" by (simp add: worker_result_def)
  have ne: "?ws \<noteq> []" by simp
  from aggregated_latency_is_unweighted_mean [OF avgs ne]
  have "avg_latency ?ws = Dbl 20" by simp
  with avgs ne show ?thesis by blast
qed

section \<open>The bytes each strategy hands to the kernel\<close>

text \<open>
  After serialization the two-copy buffer holds the eight fields followed by whatever the
  buffer held beyond them; when \<open>msg_size\<close> is a multiple of 8 nothing is beyond them and
  the buffer is what the scatter-gather and zero-copy clients offer.
\<close>

lemma length_concat_takes:
  "\<forall>i<k. n \<le> length (f i) \<Longrightarrow>
   length (concat (map (\<lambda>i. take n (f i)) [0..<k])) = k * n"
proof (induction k)
  case 0
  then show ?case by simp
next
  case (Suc k)
  then have "length (concat (map (\<lambda>i. take n (f i)) [0..<k])) = k * n"
    and "min (length (f k)) n = n"
    by auto
  then show ?case by simp
qed

lemma serialize_steps:
  assumes "0 \<le> field_size msg"
    and "\<forall>i<k. nat (field_size msg) \<le> length (msg_fields msg ! i)"
    and "k * nat (field_size msg) \<le> length buf"
  shows "fold (\<lambda>i (buf, offset).
                  (memcpy buf (nat offset) (msg_fields msg ! i) (nat (field_size msg)),
                   offset + field_size msg))
              [0..<k] (buf, 0)
         = (concat (map (\<lambda>i. take (nat (field_size msg)) (msg_fields msg ! i)) [0..<k])
              @ drop (k * nat (field_size msg)) buf,
            int k * field_size msg)"
  using assms
proof (induction k)
  case 0
  then show ?case by simp
next
  case (Suc k)
  let ?fs = "nat (field_size msg)"
  let ?A = "concat (map (\<lambda>i. take ?fs (msg_fields msg ! i)) [0..<k])"
  from Suc.prems have ih: "fold (\<lambda>i (buf, offset).
                  (memcpy buf (nat offset) (msg_fields msg ! i) ?fs, offset + field_size msg))
              [0..<k] (buf, 0) = (?A @ drop (k * ?fs) buf, int k * field_size msg)"
    by (intro Suc.IH) auto
  have lenA: "length ?A = k * ?fs"
    using Suc.prems(2) by (intro length_concat_takes) auto
  have off: "nat (int k * field_size msg) = k * ?fs"
    using Suc.prems(1) by (simp add: nat_mult_distrib)
  have room: "k * ?fs + ?fs \<le> length buf" using Suc.prems(3) by simp
  have "memcpy (?A @ drop (k * ?fs) buf) (k * ?fs) (msg_fields msg ! k) ?fs
        = ?A @ take ?fs (msg_fields msg ! k) @ drop (Suc k * ?fs) buf"
    using lenA room by (simp add: memcpy_def add.commute)
  with ih off show ?case by (simp add: algebra_simps)
qed

lemma serialize_alloc:
  assumes "alloc_message h m = Inr msg" and "length buf = nat m"
  shows "serialize msg buf = gather (iov_of msg) @ drop (8 * nat (m sdiv 8)) buf"
proof -
  from assms(1) have fs: "0 < m sdiv 8" and f: "field_size msg = m sdiv 8"
    and flds: "msg_fields msg = map (\<lambda>i. replicate (nat (m sdiv 8)) (of_nat (65 + i))) [0..<8]"
    by (auto simp: alloc_message_def NUM_FIELDS_def Let_def split: if_splits)
  have "8 * (m sdiv 8) \<le> m"
    using fs by (simp add: signed_divide_int_def sgn_if split: if_splits)
  then have room: "8 * nat (field_size msg) \<le> length buf"
    using assms(2) f fs by simp
  have lens: "\<forall>i<8. nat (field_size msg) \<le> length (msg_fields msg ! i)"
    by (simp add: f flds)
  have g: "gather (iov_of msg)
           = concat (map (\<lambda>i. take (nat (field_size msg)) (msg_fields msg ! i)) [0..<8])"
    by (simp add: gather_def iov_of_def NUM_FIELDS_def comp_def)
  from serialize_steps [of msg 8 buf] fs f lens room g show ?thesis
    by (simp add: serialize_def NUM_FIELDS_def)
qed

lemma two_copy_buffer_when_divisible:
  assumes "alloc_message h m = Inr msg" and "length buf = nat m" and "m mod 8 = 0"
  shows "take (nat m) (serialize msg buf) = gather (iov_of msg)"
proof -
  from alloc_message_InrD [OF assms(1)] have "8 \<le> m" by simp
  moreover from assms(3) have "8 * (m div 8) = m"
    using mult_div_mod_eq [of 8 m] by simp
  ultimately have exact: "8 * (m sdiv 8) = m" and nonneg: "0 \<le> m sdiv 8"
    by (simp_all add: signed_divide_int_def sgn_if pos_imp_zdiv_nonneg_iff)
  from exact nonneg have whole: "8 * nat (m sdiv 8) = nat m"
    using nat_mult_distrib [of 8 "m sdiv 8"] by simp
  from gather_length [OF assms(1)] exact have "int (length (gather (iov_of msg))) = m"
    by simp
  then have "length (gather (iov_of msg)) = nat m" by simp
  with whole show ?thesis
    using serialize_alloc [OF assms(1,2)] assms(2) by simp
qed

text \<open>
  C1 fails on the two-copy client when \<open>msg_size\<close> is not a multiple of 8. With
  \<open>msg_size = 12\<close> the field size is 1: the scatter-gather and zero-copy clients offer
  the 8 field bytes and count 8, while the two-copy client sends 12 bytes, the 8 field
  bytes and 4 bytes of its buffer that were never written, and counts 12.
\<close>

theorem two_copy_sends_remainder:
  "alloc_message 10 12 = Inr msg8
   \<and> snd (send_all [Room 100] (serialize msg8 (map zero_fill [0..<12])) 12)
       = [65, 66, 67, 68, 69, 70, 71, 72, 0, 0, 0, 0]
   \<and> gather (iov_of msg8) = [65, 66, 67, 68, 69, 70, 71, 72]
   \<and> snd (a1_client_thread env_ok [([Room 100], 1)] (targs_of 12))
       = Returned \<lparr>thread_id = 0, msg_size = 12, duration = 2, bytes_transferred = 12,
                   elapsed_time = 2, avg_latency_us = Dbl 1\<rparr>
   \<and> snd (a2_client_thread env_ok [(Room 100, 1)] (targs_of 12))
       = Returned \<lparr>thread_id = 0, msg_size = 12, duration = 2, bytes_transferred = 8,
                   elapsed_time = 2, avg_latency_us = Dbl 1\<rparr>
   \<and> snd (a3_client_thread env_ok [([], Room 100, 1)] [] (targs_of 12))
       = Returned \<lparr>thread_id = 0, msg_size = 12, duration = 2, bytes_transferred = 8,
                   elapsed_time = 2, avg_latency_us = Dbl 1\<rparr>"
  by code_simp

end
